theory Spec2Isabelle
  imports Main "HOL-Library.AList" "HOL-Library.Sublist"
begin

section \<open>The application menu of the editor: src/main/menu/index.js\<close>

text \<open>
  The class \<open>AppMenu\<close> keeps a list of recently used documents in a JSON file and one
  menu per window. Its methods mutate the object, the file system and the menus of
  Electron, and they may throw. Here every method is a function from the state before
  to the outcome (an exception or a value) and the state after; a state that a method
  changed before it threw stays changed, as it does in JavaScript.
\<close>

subsection \<open>JSON values and the file system\<close>

text \<open>
  What \<open>JSON.parse\<close> returns. Numbers are kept as integers: the code only asks
  whether a number is truthy, that is, not zero.
\<close>

datatype json =
    JNull
  | JBool bool
  | JNum int
  | JStr string
  | JArr "json list"
  | JObj "(string \<times> json) list"

text \<open>
  The text of a file, known by what \<open>JSON.parse\<close> makes of it: either the text is
  not JSON, or it denotes a value. \<open>JSON.stringify\<close> of a value writes a text that
  denotes this value, whatever the indentation.
\<close>

datatype file_text = NotJson | JsonText json

datatype node = Dir | File file_text

type_synonym filesystem = "string \<rightharpoonup> node"

datatype message = CannotFindWindowMenu int
  \<comment> \<open>the text \<open>Cannot find window menu for id ${windowId}.\<close>\<close>

datatype error =
    SyntaxError  \<comment> \<open>thrown by \<open>JSON.parse\<close>\<close>
  | TypeError    \<comment> \<open>a property of null or undefined is read or set, or a call of what is no function\<close>
  | IOError      \<comment> \<open>thrown by \<open>fs.readFileSync\<close>\<close>
  | Error message  \<comment> \<open>\<open>new Error(...)\<close>\<close>

definition JSON_parse :: "file_text \<Rightarrow> error + json" where
  "JSON_parse t = (case t of NotJson \<Rightarrow> Inl SyntaxError | JsonText v \<Rightarrow> Inr v)"

definition JSON_stringify :: "json \<Rightarrow> file_text" where
  "JSON_stringify v = JsonText v"

definition readFileSync :: "filesystem \<Rightarrow> string \<Rightarrow> error + file_text" where
  "readFileSync fs p = (case fs p of Some (File t) \<Rightarrow> Inr t | _ \<Rightarrow> Inl IOError)"

text \<open>
  Modelled from the spec: \<open>isFile\<close>, \<open>isDirectory\<close> and \<open>ensureDirSync\<close> of
  \<open>../filesystem\<close>, which is not among the sources. The spec lists them as the
  file system helpers \<open>isFile(path)\<close>, \<open>isDirectory(path)\<close>, \<open>ensureDirectory(path)\<close>:
  existence checks, and "the directory is created if absent before any write"; a
  failing directory or file write "is allowed to propagate". A value that is not a
  string names no file and no directory. \<open>ensureDir\<close> is the file system after the
  directory has been ensured; \<open>ensureDirSync\<close> below is the call, which may fail.
\<close>

definition isFile :: "filesystem \<Rightarrow> json \<Rightarrow> bool" where
  "isFile fs f =
     (case f of
        JStr p \<Rightarrow> (case fs p of Some (File t) \<Rightarrow> True | _ \<Rightarrow> False)
      | _ \<Rightarrow> False)"

definition isDirectory :: "filesystem \<Rightarrow> json \<Rightarrow> bool" where
  "isDirectory fs f =
     (case f of
        JStr p \<Rightarrow> (case fs p of Some Dir \<Rightarrow> True | _ \<Rightarrow> False)
      | _ \<Rightarrow> False)"

definition ensureDir :: "filesystem \<Rightarrow> string \<Rightarrow> filesystem" where
  "ensureDir fs d = (case fs d of None \<Rightarrow> fs(d \<mapsto> Dir) | Some n \<Rightarrow> fs)"

text \<open>JavaScript's truthiness, as the filter \<open>f && ...\<close> uses it.\<close>

fun truthy :: "json \<Rightarrow> bool" where
  "truthy JNull = False"
| "truthy (JBool b) = b"
| "truthy (JNum n) = (n \<noteq> 0)"
| "truthy (JStr s) = (s \<noteq> [])"
| "truthy (JArr xs) = True"
| "truthy (JObj kvs) = True"

subsection \<open>Arrays\<close>

text \<open>\<open>Array.prototype.indexOf\<close>: the first index of the element, or -1.\<close>

fun indexOf :: "'a list \<Rightarrow> 'a \<Rightarrow> int" where
  "indexOf [] x = - 1"
| "indexOf (y # ys) x =
     (if y = x then 0 else (let i = indexOf ys x in if i < 0 then - 1 else i + 1))"

text \<open>
  \<open>Array.prototype.splice(start, deleteCount)\<close> for \<open>0 \<le> start\<close>: the array without
  \<open>deleteCount\<close> elements from index \<open>start\<close> on.
\<close>

definition array_splice :: "'a list \<Rightarrow> nat \<Rightarrow> nat \<Rightarrow> 'a list" where
  "array_splice xs start deleteCount = take start xs @ drop (start + deleteCount) xs"

text \<open>\<open>JSON.parse(...).filter(pred)\<close>: only an array has the method \<open>filter\<close>.\<close>

definition array_filter :: "(json \<Rightarrow> bool) \<Rightarrow> json \<Rightarrow> error + json list" where
  "array_filter pred v = (case v of JArr xs \<Rightarrow> Inr (filter pred xs) | _ \<Rightarrow> Inl TypeError)"

subsection \<open>Menus\<close>

text \<open>
  A menu item has the two mutable flags the code touches. A menu is looked up by item
  id (\<open>getMenuItemById\<close>, null when no item has the id). Menus are objects: the
  application menu of Electron and the menu stored for a window may be the same object,
  so menus live in a store and are referred to by address.
\<close>

record menu_item =
  checked :: bool
  enabled :: bool

type_synonym menu_obj = "string \<rightharpoonup> menu_item"

type_synonym shortcuts = "(string \<times> string) list"

text \<open>
  The templates (\<open>../menu/templates\<close>) and the shortcut parser
  (\<open>../keyboard/shortcutHandler\<close>) are not among the sources. They are a parameter of
  the state: \<open>configureMenu\<close> gives, for a list of recent documents (and the current
  keybindings and preferences), the menu \<open>Menu.buildFromTemplate\<close> builds from the
  template and the shortcut map \<open>parseMenu\<close> reads off it.
\<close>

record template =
  built :: menu_obj
  parsed :: shortcuts

record snapshot =
  shortcutMap :: "shortcuts option"
  menu :: "nat option"

datatype event =
    AddRecentDocument string   \<comment> \<open>\<open>app.addRecentDocument\<close>\<close>
  | ClearRecentDocuments       \<comment> \<open>\<open>app.clearRecentDocuments\<close>\<close>
  | WriteFile string file_text \<comment> \<open>\<open>fs.writeFileSync\<close>\<close>
  | LogException error         \<comment> \<open>\<open>log.error(err)\<close>\<close>
  | LogMessage message         \<comment> \<open>\<open>log.error\<close> of \<open>getWindowMenuById: \<close> and the message\<close>
  | RegisterKeyHandlers int "shortcuts option"

record app =
  platform :: string          \<comment> \<open>\<open>process.platform\<close>\<close>
  userDataPath :: string
  RECENTS_PATH :: string
  configureMenu :: "json list \<Rightarrow> template"
  activeWindowId :: int
  windowMenus :: "(int \<times> snapshot) list"  \<comment> \<open>a \<open>Map\<close>, in insertion order\<close>
  disk :: filesystem
  accepts :: "string \<Rightarrow> bool"
    \<comment> \<open>whether the environment lets the process create or write the path:
        permissions, free space, the directories above the path\<close>
  applicationMenu :: "nat option"  \<comment> \<open>\<open>Menu.getApplicationMenu()\<close>, may be null\<close>
  heap :: "nat \<Rightarrow> menu_obj"
  next_ref :: nat                  \<comment> \<open>the address of the next menu built\<close>
  trace :: "event list"            \<comment> \<open>the calls made to the outside, oldest first\<close>

type_synonym 'a outcome = "(error + 'a) \<times> app"

definition MAX_RECENTLY_USED_DOCUMENTS :: nat where
  "MAX_RECENTLY_USED_DOCUMENTS = 12"

definition isOsxOrWindows :: "app \<Rightarrow> bool" where
  \<comment> \<open>\<open>/darwin|win32/.test(process.platform)\<close>\<close>
  "isOsxOrWindows st = (sublist ''darwin'' (platform st) \<or> sublist ''win32'' (platform st))"

definition isOsx :: "app \<Rightarrow> bool" where
  "isOsx st = (platform st = ''darwin'')"

definition emit :: "event \<Rightarrow> app \<Rightarrow> app" where
  "emit e st = st\<lparr>trace := trace st @ [e]\<rparr>"

text \<open>
  \<open>fs.writeFileSync\<close> throws when the path is a directory (EISDIR) and when the
  environment refuses the write; otherwise the path is a file with the text written.
  The event \<open>WriteFile\<close> records a write that was done.
\<close>

definition writeFileSync :: "string \<Rightarrow> file_text \<Rightarrow> app \<Rightarrow> unit outcome" where
  "writeFileSync p t st =
     (if disk st p = Some Dir \<or> \<not> accepts st p then (Inl IOError, st)
      else (Inr (), emit (WriteFile p t) (st\<lparr>disk := (disk st)(p \<mapsto> File t)\<rparr>)))"

text \<open>
  Modelled from the spec: \<open>ensureDirSync\<close> of \<open>../filesystem\<close>, which is not among
  the sources ("the directory is created if absent before any write", and a failing
  directory write propagates). Nothing is done when the directory is there; it is
  created when the path is absent and the environment lets it; the call fails when a
  file is in the way or the environment refuses.
\<close>

definition ensureDirSync :: "string \<Rightarrow> app \<Rightarrow> unit outcome" where
  "ensureDirSync d st =
     (case disk st d of
        Some Dir \<Rightarrow> (Inr (), st)
      | Some (File t) \<Rightarrow> (Inl IOError, st)
      | None \<Rightarrow>
          (if accepts st d then (Inr (), st\<lparr>disk := ensureDir (disk st) d\<rparr>)
           else (Inl IOError, st)))"

definition andThen :: "'a outcome \<Rightarrow> ('a \<Rightarrow> app \<Rightarrow> 'b outcome) \<Rightarrow> 'b outcome" where
  \<comment> \<open>sequencing: an exception ends the method with the state reached\<close>
  "andThen r k = (case r of (Inl e, st) \<Rightarrow> (Inl e, st) | (Inr v, st) \<Rightarrow> k v st)"

subsection \<open>The recently used documents\<close>

definition getRecentlyUsedDocuments :: "app \<Rightarrow> json list \<times> app" where
  "getRecentlyUsedDocuments st =
     (if \<not> isFile (disk st) (JStr (RECENTS_PATH st)) then ([], st)
      else
        (case readFileSync (disk st) (RECENTS_PATH st) of
           Inl err \<Rightarrow> ([], emit (LogException err) st)
         | Inr t \<Rightarrow>
             (case JSON_parse t of
                Inl err \<Rightarrow> ([], emit (LogException err) st)
              | Inr v \<Rightarrow>
                  (case array_filter
                          (\<lambda>f. truthy f \<and> (isFile (disk st) f \<or> isDirectory (disk st) f)) v of
                     Inl err \<Rightarrow> ([], emit (LogException err) st)
                   | Inr recentDocuments \<Rightarrow>
                       (if length recentDocuments > MAX_RECENTLY_USED_DOCUMENTS
                        then (array_splice recentDocuments MAX_RECENTLY_USED_DOCUMENTS
                                (length recentDocuments - MAX_RECENTLY_USED_DOCUMENTS), st)
                        else (recentDocuments, st))))))"

text \<open>
  Lines 40 to 52 of \<open>addRecentlyUsedDocument\<close>: the new list and \<open>needSave\<close>, from the
  list read and the path.
\<close>

definition promote :: "json list \<Rightarrow> json \<Rightarrow> json list \<times> bool" where
  "promote recentDocuments filePath =
     (let index = indexOf recentDocuments filePath;
          needSave = (index \<noteq> 0);
          docs1 = (if index > 0 then array_splice recentDocuments (nat index) 1
                   else recentDocuments);
          docs2 = (if index \<noteq> 0 then filePath # docs1 else docs1)
      in if length docs2 > MAX_RECENTLY_USED_DOCUMENTS
         then (array_splice docs2 MAX_RECENTLY_USED_DOCUMENTS
                 (length docs2 - MAX_RECENTLY_USED_DOCUMENTS), True)
         else (docs2, needSave))"

subsection \<open>Building and rebuilding menus\<close>

definition buildFromTemplate :: "template \<Rightarrow> app \<Rightarrow> nat \<times> app" where
  \<comment> \<open>\<open>Menu.buildFromTemplate\<close>: a new menu object\<close>
  "buildFromTemplate t st =
     (next_ref st,
      st\<lparr>heap := (heap st)(next_ref st := built t), next_ref := Suc (next_ref st)\<rparr>)"

definition buildDefaultMenu :: "bool \<Rightarrow> json list option \<Rightarrow> app \<Rightarrow> snapshot \<times> app" where
  "buildDefaultMenu createShortcutMap recentUsedDocuments st =
     (let (docs, st1) =
            (case recentUsedDocuments of
               None \<Rightarrow> getRecentlyUsedDocuments st
             | Some ds \<Rightarrow> (ds, st));
          menuTemplate = configureMenu st1 docs;
          (m, st2) = buildFromTemplate menuTemplate st1
      in (\<lparr>shortcutMap = (if createShortcutMap then Some (parsed menuTemplate) else None),
           menu = Some m\<rparr>, st2))"

definition getMenuItemById :: "app \<Rightarrow> nat option \<Rightarrow> string \<Rightarrow> error + menu_item option" where
  \<comment> \<open>\<open>menus.getMenuItemById(id)\<close>: a TypeError when \<open>menus\<close> is null\<close>
  "getMenuItemById st menus ident =
     (case menus of None \<Rightarrow> Inl TypeError | Some a \<Rightarrow> Inr (heap st a ident))"

definition setChecked :: "nat \<Rightarrow> string \<Rightarrow> bool \<Rightarrow> app \<Rightarrow> app" where
  "setChecked a ident b st =
     (case heap st a ident of
        None \<Rightarrow> st
      | Some item \<Rightarrow> st\<lparr>heap := (heap st)(a := (heap st a)(ident \<mapsto> item\<lparr>checked := b\<rparr>))\<rparr>)"

definition setEnabled :: "nat \<Rightarrow> string \<Rightarrow> bool \<Rightarrow> app \<Rightarrow> app" where
  "setEnabled a ident b st =
     (case heap st a ident of
        None \<Rightarrow> st
      | Some item \<Rightarrow> st\<lparr>heap := (heap st)(a := (heap st a)(ident \<mapsto> item\<lparr>enabled := b\<rparr>))\<rparr>)"

definition updateMenuItem :: "nat option \<Rightarrow> nat option \<Rightarrow> string \<Rightarrow> app \<Rightarrow> unit outcome" where
  "updateMenuItem oldMenus newMenus ident st =
     (case getMenuItemById st oldMenus ident of
        Inl err \<Rightarrow> (Inl err, st)
      | Inr oldItem \<Rightarrow>
          (case getMenuItemById st newMenus ident of
             Inl err \<Rightarrow> (Inl err, st)
           | Inr newItem \<Rightarrow>
               (case (oldItem, newItem, newMenus) of
                  (Some old, Some new, Some a) \<Rightarrow> (Inr (), setChecked a ident (checked old) st)
                | _ \<Rightarrow> (Inl TypeError, st))))"

definition updateMenuItemSafe ::
  "nat option \<Rightarrow> nat option \<Rightarrow> string \<Rightarrow> bool \<Rightarrow> app \<Rightarrow> unit outcome" where
  "updateMenuItemSafe oldMenus newMenus ident defaultValue st =
     (let chk = (case oldMenus of
                   None \<Rightarrow> defaultValue
                 | Some a \<Rightarrow>
                     (case heap st a ident of
                        None \<Rightarrow> defaultValue
                      | Some oldItem \<Rightarrow> checked oldItem))
      in case getMenuItemById st newMenus ident of
           Inl err \<Rightarrow> (Inl err, st)
         | Inr None \<Rightarrow> (Inl TypeError, st)
         | Inr (Some newItem) \<Rightarrow>
             (case newMenus of
                None \<Rightarrow> (Inl TypeError, st)
              | Some a \<Rightarrow> (Inr (), setChecked a ident chk st)))"

text \<open>The body of the \<open>forEach\<close> of \<open>updateAppMenu\<close>, for one entry of the map.\<close>

definition rebuildEntry :: "json list \<Rightarrow> int \<times> snapshot \<Rightarrow> app \<Rightarrow> unit outcome" where
  "rebuildEntry recentUsedDocuments kv st =
     (let (key, val) = kv;
          oldMenu = menu val;
          (new, st1) = buildDefaultMenu False (Some recentUsedDocuments) st;
          newMenu = menu new
      in andThen (updateMenuItem oldMenu newMenu ''sourceCodeModeMenuItem'' st1) (\<lambda>_ st2.
         andThen (updateMenuItem oldMenu newMenu ''typewriterModeMenuItem'' st2) (\<lambda>_ st3.
         andThen (updateMenuItem oldMenu newMenu ''focusModeMenuItem'' st3) (\<lambda>_ st4.
         andThen (updateMenuItem oldMenu newMenu ''sideBarMenuItem'' st4) (\<lambda>_ st5.
         andThen (updateMenuItem oldMenu newMenu ''tabBarMenuItem'' st5) (\<lambda>_ st6.
           (let st7 = st6\<lparr>windowMenus :=
                            AList.update key (val\<lparr>menu := newMenu\<rparr>) (windowMenus st6)\<rparr>
            in if activeWindowId st7 = key
               then (Inr (), st7\<lparr>applicationMenu := newMenu\<rparr>)
               else (Inr (), st7))))))))"

fun rebuildAll :: "json list \<Rightarrow> (int \<times> snapshot) list \<Rightarrow> app \<Rightarrow> unit outcome" where
  "rebuildAll recentUsedDocuments [] st = (Inr (), st)"
| "rebuildAll recentUsedDocuments (kv # rest) st =
     andThen (rebuildEntry recentUsedDocuments kv st)
       (\<lambda>_ st1. rebuildAll recentUsedDocuments rest st1)"

definition updateAppMenu :: "json list option \<Rightarrow> app \<Rightarrow> unit outcome" where
  "updateAppMenu recentUsedDocuments st =
     (let (docs, st1) =
            (case recentUsedDocuments of
               None \<Rightarrow> getRecentlyUsedDocuments st
             | Some ds \<Rightarrow> (ds, st))
      in rebuildAll docs (windowMenus st1) st1)"

subsection \<open>The methods of the class\<close>

definition addRecentlyUsedDocument :: "string \<Rightarrow> app \<Rightarrow> unit outcome" where
  "addRecentlyUsedDocument filePath st =
     (let st1 = (if isOsxOrWindows st then emit (AddRecentDocument filePath) st else st)
      in if isOsx st1 then (Inr (), st1)
         else
           (let (recentDocuments, st2) = getRecentlyUsedDocuments st1;
                (docs, needSave) = promote recentDocuments (JStr filePath)
            in andThen (updateAppMenu (Some docs) st2) (\<lambda>_ st3.
                 if needSave
                 then andThen (ensureDirSync (userDataPath st3) st3) (\<lambda>_ st4.
                        writeFileSync (RECENTS_PATH st4) (JSON_stringify (JArr docs)) st4)
                 else (Inr (), st3))))"

definition clearRecentlyUsedDocuments :: "app \<Rightarrow> unit outcome" where
  "clearRecentlyUsedDocuments st =
     (let st1 = (if isOsxOrWindows st then emit ClearRecentDocuments st else st)
      in if isOsx st1 then (Inr (), st1)
         else
           andThen (updateAppMenu (Some []) st1) (\<lambda>_ st2.
             andThen (ensureDirSync (userDataPath st2) st2) (\<lambda>_ st3.
               writeFileSync (RECENTS_PATH st3) (JSON_stringify (JArr [])) st3)))"

definition addEditorMenu :: "int \<Rightarrow> app \<Rightarrow> unit outcome" where
  "addEditorMenu windowId st =
     (let (new, st1) = buildDefaultMenu True None st;
          st2 = st1\<lparr>windowMenus := AList.update windowId new (windowMenus st1)\<rparr>;
          newMenu = menu new;
          currentMenu = applicationMenu st2
      in andThen (updateMenuItemSafe currentMenu newMenu ''sourceCodeModeMenuItem'' False st2)
           (\<lambda>_ st3.
         andThen (updateMenuItemSafe currentMenu newMenu ''typewriterModeMenuItem'' False st3)
           (\<lambda>_ st4.
         (case getMenuItemById st4 newMenu ''sourceCodeModeMenuItem'' of
            Inl err \<Rightarrow> (Inl err, st4)
          | Inr None \<Rightarrow> (Inl TypeError, st4)
          | Inr (Some item) \<Rightarrow>
              andThen
                (if checked item
                 then
                   (case (newMenu, getMenuItemById st4 newMenu ''typewriterModeMenuItem'',
                          getMenuItemById st4 newMenu ''focusModeMenuItem'') of
                      (Some a, Inr (Some typewriterModeMenuItem), Inr focusModeMenuItem) \<Rightarrow>
                        (let st5 = setEnabled a ''typewriterModeMenuItem'' False st4
                         in case focusModeMenuItem of
                              None \<Rightarrow> (Inl TypeError, st5)
                            | Some f \<Rightarrow> (Inr (), setEnabled a ''focusModeMenuItem'' False st5))
                    | _ \<Rightarrow> (Inl TypeError, st4))
                 else (Inr (), st4))
                (\<lambda>_ st6. (Inr (), emit (RegisterKeyHandlers windowId (shortcutMap new)) st6))))))"

definition removeWindowMenu :: "int \<Rightarrow> app \<Rightarrow> app" where
  "removeWindowMenu windowId st =
     (let st1 = st\<lparr>windowMenus := AList.delete windowId (windowMenus st)\<rparr>
      in if activeWindowId st = windowId then st1\<lparr>activeWindowId := - 1\<rparr> else st1)"

definition getWindowMenuById :: "int \<Rightarrow> app \<Rightarrow> nat outcome" where
  "getWindowMenuById windowId st =
     (case map_of (windowMenus st) windowId of
        None \<Rightarrow> (Inl TypeError, st)  \<comment> \<open>\<open>const { menu } = undefined\<close>\<close>
      | Some val \<Rightarrow>
          (case menu val of
             None \<Rightarrow>
               (Inl (Error (CannotFindWindowMenu windowId)),
                emit (LogMessage (CannotFindWindowMenu windowId)) st)
           | Some m \<Rightarrow> (Inr m, st)))"

definition setActiveWindow :: "int \<Rightarrow> app \<Rightarrow> unit outcome" where
  "setActiveWindow windowId st =
     (if activeWindowId st \<noteq> windowId
      then andThen (getWindowMenuById windowId st) (\<lambda>m st1.
             (Inr (), st1\<lparr>applicationMenu := Some m, activeWindowId := windowId\<rparr>))
      else (Inr (), st))"

subsection \<open>Sequences of calls and what is observed of a state\<close>



definition recentList :: "app \<Rightarrow> json list" where
  \<comment> \<open>the list \<open>getRecentlyUsedDocuments()\<close> returns\<close>
  "recentList st = fst (getRecentlyUsedDocuments st)"

fun isWrite :: "event \<Rightarrow> bool" where
  "isWrite (WriteFile p t) = True"
| "isWrite e = False"

definition writes :: "app \<Rightarrow> event list" where
  "writes st = filter isWrite (trace st)"

definition writable :: "app \<Rightarrow> bool" where
  \<comment> \<open>the directory can be ensured and the file written: no write of the list fails\<close>
  "writable st =
     ((disk st (userDataPath st) = Some Dir \<or>
       (disk st (userDataPath st) = None \<and> accepts st (userDataPath st))) \<and>
      RECENTS_PATH st \<noteq> userDataPath st \<and>
      disk st (RECENTS_PATH st) \<noteq> Some Dir \<and>
      accepts st (RECENTS_PATH st))"


definition visibleChecked :: "app \<Rightarrow> string \<Rightarrow> bool" where
  \<comment> \<open>a toggle of the visible menu; false with no visible menu or no such item\<close>
  "visibleChecked st ident =
     (case applicationMenu st of
        None \<Rightarrow> False
      | Some a \<Rightarrow> (case heap st a ident of None \<Rightarrow> False | Some item \<Rightarrow> checked item))"

definition toggles :: "string list" where
  "toggles = [''sourceCodeModeMenuItem'', ''typewriterModeMenuItem'', ''focusModeMenuItem'',
              ''sideBarMenuItem'', ''tabBarMenuItem'']"

definition hasItems :: "string list \<Rightarrow> menu_obj \<Rightarrow> bool" where
  "hasItems ids m = list_all (\<lambda>i. m i \<noteq> None) ids"

text \<open>
  What one call of \<open>updateMenuItem\<close> does to the new menu when both items are there.
\<close>

definition copyChecked :: "menu_obj \<Rightarrow> string \<Rightarrow> menu_obj \<Rightarrow> menu_obj" where
  "copyChecked old ident new =
     (case (old ident, new ident) of
        (Some oldItem, Some newItem) \<Rightarrow> new(ident \<mapsto> newItem\<lparr>checked := checked oldItem\<rparr>)
      | _ \<Rightarrow> new)"

text \<open>
  Following the spec's words, "copies forward five specific toggle states from each
  window's own prior snapshot into its corresponding new tree": the new tree, where each
  of the five items has the checked state of the same item of the old tree and every
  other item, and every other flag, is as built.
\<close>

definition carry :: "menu_obj \<Rightarrow> menu_obj \<Rightarrow> menu_obj" where
  "carry old new =
     (\<lambda>ident.
        if ident \<in> set toggles
        then (case (old ident, new ident) of
                (Some oldItem, Some newItem) \<Rightarrow> Some (newItem\<lparr>checked := checked oldItem\<rparr>)
              | _ \<Rightarrow> new ident)
        else new ident)"

text \<open>
  The states the class reaches when the templates define the five toggles: every menu
  referred to has been built, the keys of the map are distinct, every window has a
  menu, and every menu stored and every menu a template builds has the five items.
\<close>

definition allocated :: "app \<Rightarrow> bool" where
  "allocated st =
     ((case applicationMenu st of None \<Rightarrow> True | Some a \<Rightarrow> a < next_ref st) \<and>
      list_all (\<lambda>kv. case menu (snd kv) of None \<Rightarrow> True | Some a \<Rightarrow> a < next_ref st)
        (windowMenus st))"

definition menus_ok :: "app \<Rightarrow> bool" where
  "menus_ok st =
     (allocated st \<and> distinct (map fst (windowMenus st)) \<and>
      list_all (\<lambda>kv. case menu (snd kv) of None \<Rightarrow> False | Some a \<Rightarrow> hasItems toggles (heap st a))
        (windowMenus st) \<and>
      (\<forall>docs. hasItems toggles (built (configureMenu st docs))))"

text \<open>What one round of the \<open>forEach\<close> of \<open>updateAppMenu\<close> comes to, in such a state.\<close>

definition rebuilt :: "json list \<Rightarrow> int \<times> snapshot \<Rightarrow> app \<Rightarrow> app" where
  "rebuilt docs kv st =
     st\<lparr>heap := (heap st)(next_ref st :=
                   carry (case menu (snd kv) of None \<Rightarrow> Map.empty | Some r \<Rightarrow> heap st r)
                     (built (configureMenu st docs))),
        next_ref := Suc (next_ref st),
        windowMenus := AList.update (fst kv) ((snd kv)\<lparr>menu := Some (next_ref st)\<rparr>) (windowMenus st),
        applicationMenu :=
          (if activeWindowId st = fst kv then Some (next_ref st) else applicationMenu st)\<rparr>"

definition rebuiltAll :: "json list \<Rightarrow> (int \<times> snapshot) list \<Rightarrow> app \<Rightarrow> app" where
  "rebuiltAll docs es st = foldl (\<lambda>s kv. rebuilt docs kv s) st es"

subsection \<open>States used as examples\<close>

definition item0 :: menu_item where
  "item0 = \<lparr>checked = False, enabled = True\<rparr>"

definition menu0 :: menu_obj where
  "menu0 = map_of
     [(''sourceCodeModeMenuItem'', item0), (''typewriterModeMenuItem'', item0),
      (''focusModeMenuItem'', item0), (''sideBarMenuItem'', item0),
      (''tabBarMenuItem'', item0), (''alwaysOnTopMenuItem'', item0)]"

definition template0 :: "json list \<Rightarrow> template" where
  "template0 docs = \<lparr>built = menu0, parsed = []\<rparr>"

definition fresh :: "string \<Rightarrow> filesystem \<Rightarrow> app" where
  \<comment> \<open>the object the constructor makes, on a platform and a file system\<close>
  "fresh pf fs =
     \<lparr>platform = pf, userDataPath = ''/u'', RECENTS_PATH = ''/u/recent.json'',
      configureMenu = template0, activeWindowId = - 1, windowMenus = [],
      disk = fs, accepts = (\<lambda>p. True), applicationMenu = None, heap = (\<lambda>a. Map.empty), next_ref = 0, trace = []\<rparr>"

definition disk1 :: filesystem where
  \<comment> \<open>a persisted list of four entries: a file, a deleted file, null, a directory\<close>
  "disk1 =
     [''/u/recent.json'' \<mapsto>
        File (JsonText (JArr [JStr ''/a.md'', JStr ''/gone.md'', JNull, JStr ''/docs''])),
      ''/a.md'' \<mapsto> File NotJson,
      ''/docs'' \<mapsto> Dir]"

definition disk2 :: filesystem where
  \<comment> \<open>a persisted file that is not JSON\<close>
  "disk2 = [''/u/recent.json'' \<mapsto> File NotJson]"



definition two_windows :: app where
  \<comment> \<open>window 1 shows its side bar, window 2 its tab bar; window 2 is the active one\<close>
  "two_windows =
     \<lparr>platform = ''linux'', userDataPath = ''/u'', RECENTS_PATH = ''/u/recent.json'',
      configureMenu = template0, activeWindowId = 2,
      windowMenus = [(1, \<lparr>shortcutMap = Some [], menu = Some 0\<rparr>),
                     (2, \<lparr>shortcutMap = Some [], menu = Some 1\<rparr>)],
      disk = Map.empty, accepts = (\<lambda>p. True), applicationMenu = Some 1,
      heap = (\<lambda>a. Map.empty)
        (0 := menu0(''sideBarMenuItem'' \<mapsto> \<lparr>checked = True, enabled = True\<rparr>),
         1 := menu0(''tabBarMenuItem'' \<mapsto> \<lparr>checked = True, enabled = True\<rparr>)),
      next_ref = 2, trace = []\<rparr>"

definition one_window :: "menu_obj \<Rightarrow> app" where
  \<comment> \<open>window 1 is the only window and the active one; its menu is the visible menu\<close>
  "one_window m =
     \<lparr>platform = ''linux'', userDataPath = ''/u'', RECENTS_PATH = ''/u/recent.json'',
      configureMenu = template0, activeWindowId = 1,
      windowMenus = [(1, \<lparr>shortcutMap = Some [], menu = Some 0\<rparr>)],
      disk = Map.empty, accepts = (\<lambda>p. True), applicationMenu = Some 0,
      heap = (\<lambda>a. Map.empty)(0 := m), next_ref = 1, trace = []\<rparr>"

definition typing :: app where
  \<comment> \<open>typewriter mode is checked in the visible menu, source code mode is not\<close>
  "typing = one_window (menu0(''typewriterModeMenuItem'' \<mapsto> \<lparr>checked = True, enabled = True\<rparr>))"

definition sourcing :: app where
  \<comment> \<open>source code mode is checked in the visible menu\<close>
  "sourcing = one_window (menu0(''sourceCodeModeMenuItem'' \<mapsto> \<lparr>checked = True, enabled = True\<rparr>))"


section \<open>Facts about arrays and the promotion of a path\<close>

lemma indexOf_ge: "- 1 \<le> indexOf xs x" by (induction xs) (auto simp: Let_def)










section \<open>Facts about reading the persisted list\<close>


lemma splice_tail: "n \<le> length xs \<Longrightarrow> array_splice xs n (length xs - n) = take n xs"
  by (simp add: array_splice_def)

lemma gRUD_array:
  assumes "disk st (RECENTS_PATH st) = Some (File (JsonText (JArr xs)))"
  shows "getRecentlyUsedDocuments st =
           (take 12 (filter (\<lambda>f. truthy f \<and> (isFile (disk st) f \<or> isDirectory (disk st) f)) xs), st)"
  using assms
  by (simp add: getRecentlyUsedDocuments_def isFile_def readFileSync_def JSON_parse_def
      array_filter_def MAX_RECENTLY_USED_DOCUMENTS_def splice_tail)

lemma gRUD_notjson:
  assumes "disk st (RECENTS_PATH st) = Some (File NotJson)"
  shows "getRecentlyUsedDocuments st = ([], emit (LogException SyntaxError) st)"
  using assms
  by (simp add: getRecentlyUsedDocuments_def isFile_def readFileSync_def JSON_parse_def)

lemma gRUD_nonarray:
  assumes "disk st (RECENTS_PATH st) = Some (File (JsonText v))" "\<forall>xs. v \<noteq> JArr xs"
  shows "getRecentlyUsedDocuments st = ([], emit (LogException TypeError) st)"
  using assms
  by (cases v) (simp_all add: getRecentlyUsedDocuments_def isFile_def readFileSync_def JSON_parse_def
      array_filter_def)

lemma gRUD_nofile:
  assumes "\<forall>t. disk st (RECENTS_PATH st) \<noteq> Some (File t)"
  shows "getRecentlyUsedDocuments st = ([], st)"
proof -
  have "\<not> isFile (disk st) (JStr (RECENTS_PATH st))"
    using assms by (auto simp: isFile_def split: option.splits node.splits)
  then show ?thesis by (simp add: getRecentlyUsedDocuments_def)
qed

lemma gRUD_state:
  "snd (getRecentlyUsedDocuments st) = st \<or> (\<exists>e. snd (getRecentlyUsedDocuments st) = emit (LogException e) st)"
  by (auto simp: getRecentlyUsedDocuments_def split: sum.splits)

lemma recentList_cong:
  assumes "disk st' = disk st" "RECENTS_PATH st' = RECENTS_PATH st"
  shows "recentList st' = recentList st"
  using assms
  by (simp add: recentList_def getRecentlyUsedDocuments_def emit_def split: sum.splits)



section \<open>One round of the rebuild\<close>

lemma copyChecked_None_iff [simp]: "copyChecked old i m j = None \<longleftrightarrow> m j = None"
  by (simp add: copyChecked_def split: option.splits)

lemma updateMenuItem_copy:
  assumes "heap st r i \<noteq> None" "heap st a i \<noteq> None"
  shows "updateMenuItem (Some r) (Some a) i st =
           (Inr (), st\<lparr>heap := (heap st)(a := copyChecked (heap st r) i (heap st a))\<rparr>)"
  using assms
  by (auto simp: updateMenuItem_def getMenuItemById_def setChecked_def copyChecked_def)

lemma hasItems_toggles:
  "hasItems toggles m \<longleftrightarrow>
     m ''sourceCodeModeMenuItem'' \<noteq> None \<and> m ''typewriterModeMenuItem'' \<noteq> None \<and>
     m ''focusModeMenuItem'' \<noteq> None \<and> m ''sideBarMenuItem'' \<noteq> None \<and>
     m ''tabBarMenuItem'' \<noteq> None"
  by (simp add: hasItems_def toggles_def)

lemma copyChecked_apply:
  "copyChecked old i m j =
     (if j = i
      then (case (old i, m i) of
              (Some oldItem, Some newItem) \<Rightarrow> Some (newItem\<lparr>checked := checked oldItem\<rparr>)
            | _ \<Rightarrow> m i)
      else m j)"
  by (simp add: copyChecked_def split: option.splits)

lemma carry_unfold:
  "carry old new =
     copyChecked old ''tabBarMenuItem'' (copyChecked old ''sideBarMenuItem''
       (copyChecked old ''focusModeMenuItem'' (copyChecked old ''typewriterModeMenuItem''
         (copyChecked old ''sourceCodeModeMenuItem'' new))))"
proof (rule ext)
  fix j
  consider "j = ''sourceCodeModeMenuItem''" | "j = ''typewriterModeMenuItem''"
    | "j = ''focusModeMenuItem''" | "j = ''sideBarMenuItem''" | "j = ''tabBarMenuItem''"
    | "j \<notin> set toggles"
    by (auto simp: toggles_def)
  then show "carry old new j =
     copyChecked old ''tabBarMenuItem'' (copyChecked old ''sideBarMenuItem''
       (copyChecked old ''focusModeMenuItem'' (copyChecked old ''typewriterModeMenuItem''
         (copyChecked old ''sourceCodeModeMenuItem'' new)))) j"
  proof cases
    case 1
    then show ?thesis
      by (simp add: carry_def toggles_def copyChecked_apply cong: option.case_cong)
  next
    case 2
    then show ?thesis
      by (simp add: carry_def toggles_def copyChecked_apply cong: option.case_cong)
  next
    case 3
    then show ?thesis
      by (simp add: carry_def toggles_def copyChecked_apply cong: option.case_cong)
  next
    case 4
    then show ?thesis
      by (simp add: carry_def toggles_def copyChecked_apply cong: option.case_cong)
  next
    case 5
    then show ?thesis
      by (simp add: carry_def toggles_def copyChecked_apply cong: option.case_cong)
  next
    case 6
    then have "j \<noteq> ''sourceCodeModeMenuItem''" "j \<noteq> ''typewriterModeMenuItem''"
      "j \<noteq> ''focusModeMenuItem''" "j \<noteq> ''sideBarMenuItem''" "j \<noteq> ''tabBarMenuItem''"
      by (auto simp: toggles_def)
    with 6 show ?thesis by (simp add: carry_def copyChecked_apply cong: option.case_cong)
  qed
qed

lemma carry_None_iff [simp]: "carry old new j = None \<longleftrightarrow> new j = None"
  by (simp add: carry_def split: option.splits)

lemma hasItems_carry [simp]: "hasItems ids (carry old new) = hasItems ids new"
  by (simp add: hasItems_def)

lemma rebuildEntry_ok:
  assumes v: "menu v = Some r" and r: "r < next_ref st"
    and old: "hasItems toggles (heap st r)"
    and new: "hasItems toggles (built (configureMenu st docs))"
  shows "rebuildEntry docs (k, v) st = (Inr (), rebuilt docs (k, v) st)"
proof -
  have ne: "r \<noteq> next_ref st" using r by simp
  show ?thesis
    using v ne old new
    by (simp add: rebuildEntry_def buildDefaultMenu_def buildFromTemplate_def andThen_def
        updateMenuItem_copy hasItems_toggles rebuilt_def carry_unfold Let_def)
qed

lemma list_all_update:
  "list_all P al \<Longrightarrow> P (k, v) \<Longrightarrow> list_all P (AList.update k v al)"
  by (induction al) auto

lemma in_update_other:
  "(k', v') \<in> set al \<Longrightarrow> k' \<noteq> k \<Longrightarrow> (k', v') \<in> set (AList.update k v al)"
  by (induction al) auto

lemma rebuilt_fields [simp]:
  "platform (rebuilt docs kv st) = platform st"
  "userDataPath (rebuilt docs kv st) = userDataPath st"
  "RECENTS_PATH (rebuilt docs kv st) = RECENTS_PATH st"
  "configureMenu (rebuilt docs kv st) = configureMenu st"
  "activeWindowId (rebuilt docs kv st) = activeWindowId st"
  "disk (rebuilt docs kv st) = disk st"
  "accepts (rebuilt docs kv st) = accepts st"
  "trace (rebuilt docs kv st) = trace st"
  "next_ref (rebuilt docs kv st) = Suc (next_ref st)"
  "windowMenus (rebuilt docs kv st) =
     AList.update (fst kv) ((snd kv)\<lparr>menu := Some (next_ref st)\<rparr>) (windowMenus st)"
  "applicationMenu (rebuilt docs kv st) =
     (if activeWindowId st = fst kv then Some (next_ref st) else applicationMenu st)"
  by (simp_all add: rebuilt_def)

lemma rebuilt_heap_old: "a < next_ref st \<Longrightarrow> heap (rebuilt docs kv st) a = heap st a"
  by (simp add: rebuilt_def)

lemma rebuilt_heap_new:
  "heap (rebuilt docs kv st) (next_ref st) =
     carry (case menu (snd kv) of None \<Rightarrow> Map.empty | Some r \<Rightarrow> heap st r)
       (built (configureMenu st docs))"
  by (simp add: rebuilt_def)

lemma rebuilt_menus_ok:
  assumes ok: "menus_ok st"
  shows "menus_ok (rebuilt docs kv st)"
proof -
  let ?st' = "rebuilt docs kv st"
  from ok have al: "allocated st" and di: "distinct (map fst (windowMenus st))"
    and it: "list_all (\<lambda>kv. case menu (snd kv) of None \<Rightarrow> False
                | Some a \<Rightarrow> hasItems toggles (heap st a)) (windowMenus st)"
    and tm: "\<forall>docs. hasItems toggles (built (configureMenu st docs))"
    by (simp_all add: menus_ok_def)
  have al': "allocated ?st'"
  proof -
    have "list_all (\<lambda>kv. case menu (snd kv) of None \<Rightarrow> True | Some a \<Rightarrow> a < next_ref ?st')
            (windowMenus st)"
      using al by (auto simp: allocated_def list_all_iff split: option.splits)
    then have "list_all (\<lambda>kv. case menu (snd kv) of None \<Rightarrow> True | Some a \<Rightarrow> a < next_ref ?st')
            (windowMenus ?st')"
      by (simp add: list_all_update)
    moreover have "case applicationMenu ?st' of None \<Rightarrow> True | Some a \<Rightarrow> a < next_ref ?st'"
      using al by (auto simp: allocated_def split: option.splits)
    ultimately show ?thesis unfolding allocated_def by blast
  qed
  have it': "list_all (\<lambda>kv. case menu (snd kv) of None \<Rightarrow> False
                | Some a \<Rightarrow> hasItems toggles (heap ?st' a)) (windowMenus ?st')"
  proof -
    have "list_all (\<lambda>kv. case menu (snd kv) of None \<Rightarrow> False
                | Some a \<Rightarrow> hasItems toggles (heap ?st' a)) (windowMenus st)"
      using al it
      by (auto simp: allocated_def list_all_iff rebuilt_heap_old split: option.splits)
    moreover have "hasItems toggles (heap ?st' (next_ref st))"
      using tm by (simp add: rebuilt_heap_new)
    ultimately show ?thesis by (simp add: list_all_update)
  qed
  have di': "distinct (map fst (windowMenus ?st'))"
    using di by (simp add: distinct_update)
  have tm': "\<forall>docs. hasItems toggles (built (configureMenu ?st' docs))"
    using tm by simp
  show ?thesis
    unfolding menus_ok_def using al' it' di' tm' by blast
qed

lemma menus_ok_entry:
  assumes "menus_ok st" "(k, v) \<in> set (windowMenus st)"
  shows "\<exists>r. menu v = Some r \<and> r < next_ref st \<and> hasItems toggles (heap st r)"
  using assms
  by (auto simp: menus_ok_def allocated_def list_all_iff split: option.splits)

lemma rebuildAll_ok:
  assumes "menus_ok st" "set es \<subseteq> set (windowMenus st)" "distinct (map fst es)"
  shows "rebuildAll docs es st = (Inr (), rebuiltAll docs es st) \<and>
         menus_ok (rebuiltAll docs es st)"
  using assms
proof (induction es arbitrary: st)
  case Nil
  then show ?case by (simp add: rebuiltAll_def)
next
  case (Cons kv es)
  obtain k v where kv: "kv = (k, v)" by (cases kv)
  from Cons.prems kv have mem: "(k, v) \<in> set (windowMenus st)" by simp
  from menus_ok_entry[OF Cons.prems(1) mem] obtain r where
    r: "menu v = Some r" "r < next_ref st" "hasItems toggles (heap st r)" by blast
  from Cons.prems(1) have tm: "hasItems toggles (built (configureMenu st docs))"
    by (simp add: menus_ok_def)
  have step: "rebuildEntry docs kv st = (Inr (), rebuilt docs kv st)"
    using rebuildEntry_ok[OF r tm] kv by simp
  have ok': "menus_ok (rebuilt docs kv st)"
    by (rule rebuilt_menus_ok[OF Cons.prems(1)])
  have sub': "set es \<subseteq> set (windowMenus (rebuilt docs kv st))"
  proof
    fix x assume x: "x \<in> set es"
    obtain k' v' where x': "x = (k', v')" by (cases x)
    from x x' Cons.prems(3) kv have "k' \<noteq> k" by force
    moreover from x x' Cons.prems(2) have "(k', v') \<in> set (windowMenus st)" by auto
    ultimately show "x \<in> set (windowMenus (rebuilt docs kv st))"
      using x' kv by (simp add: in_update_other)
  qed
  from Cons.prems(3) have di': "distinct (map fst es)" by simp
  from Cons.IH[OF ok' sub' di'] step show ?case
    by (simp add: andThen_def rebuiltAll_def)
qed

section \<open>The rebuild of all windows\<close>

lemma rebuiltAll_Nil [simp]: "rebuiltAll docs [] st = st"
  by (simp add: rebuiltAll_def)

lemma rebuiltAll_Cons [simp]:
  "rebuiltAll docs (kv # es) st = rebuiltAll docs es (rebuilt docs kv st)"
  by (simp add: rebuiltAll_def)

lemma rebuiltAll_fields [simp]:
  "platform (rebuiltAll docs es st) = platform st"
  "userDataPath (rebuiltAll docs es st) = userDataPath st"
  "RECENTS_PATH (rebuiltAll docs es st) = RECENTS_PATH st"
  "configureMenu (rebuiltAll docs es st) = configureMenu st"
  "activeWindowId (rebuiltAll docs es st) = activeWindowId st"
  "disk (rebuiltAll docs es st) = disk st"
  "accepts (rebuiltAll docs es st) = accepts st"
  "trace (rebuiltAll docs es st) = trace st"
  "next_ref (rebuiltAll docs es st) = next_ref st + length es"
  by (induction es arbitrary: st; simp)+

lemma rebuiltAll_heap_old:
  "a < next_ref st \<Longrightarrow> heap (rebuiltAll docs es st) a = heap st a"
  by (induction es arbitrary: st) (simp_all add: rebuilt_heap_old)

lemma update_keys_same:
  "k \<in> fst ` set al \<Longrightarrow> map fst (AList.update k v al) = map fst al"
  by (induction al) auto

lemma rebuiltAll_keys:
  "fst ` set es \<subseteq> fst ` set (windowMenus st) \<Longrightarrow>
   map fst (windowMenus (rebuiltAll docs es st)) = map fst (windowMenus st)"
proof (induction es arbitrary: st)
  case Nil
  then show ?case by simp
next
  case (Cons kv es)
  have same: "map fst (windowMenus (rebuilt docs kv st)) = map fst (windowMenus st)"
    using Cons.prems by (simp add: update_keys_same)
  then have "fst ` set (windowMenus (rebuilt docs kv st)) = fst ` set (windowMenus st)"
    by (metis list.set_map)
  with Cons.prems have "fst ` set es \<subseteq> fst ` set (windowMenus (rebuilt docs kv st))"
    by simp
  from Cons.IH[OF this] same show ?case by simp
qed

lemma rebuiltAll_other:
  "k \<notin> fst ` set es \<Longrightarrow>
   map_of (windowMenus (rebuiltAll docs es st)) k = map_of (windowMenus st) k"
  by (induction es arbitrary: st) (auto simp: update_conv')

lemma rebuiltAll_inactive:
  "activeWindowId st \<notin> fst ` set es \<Longrightarrow>
   applicationMenu (rebuiltAll docs es st) = applicationMenu st"
  by (induction es arbitrary: st) auto

lemma rebuiltAll_nth:
  assumes "distinct (map fst es)" "i < length es"
    and "list_all (\<lambda>kv. case menu (snd kv) of None \<Rightarrow> False | Some r \<Rightarrow> r < next_ref st) es"
  shows "map_of (windowMenus (rebuiltAll docs es st)) (fst (es ! i)) =
           Some ((snd (es ! i))\<lparr>menu := Some (next_ref st + i)\<rparr>) \<and>
         heap (rebuiltAll docs es st) (next_ref st + i) =
           carry (case menu (snd (es ! i)) of None \<Rightarrow> Map.empty | Some r \<Rightarrow> heap st r)
             (built (configureMenu st docs)) \<and>
         (activeWindowId st = fst (es ! i) \<longrightarrow>
            applicationMenu (rebuiltAll docs es st) = Some (next_ref st + i))"
  using assms
proof (induction es arbitrary: st i)
  case Nil
  then show ?case by simp
next
  case (Cons kv es)
  let ?s1 = "rebuilt docs kv st"
  from Cons.prems(1) have notin: "fst kv \<notin> fst ` set es" and di: "distinct (map fst es)"
    by auto
  show ?case
  proof (cases i)
    case 0
    have "map_of (windowMenus (rebuiltAll docs es ?s1)) (fst kv) = map_of (windowMenus ?s1) (fst kv)"
      using notin by (rule rebuiltAll_other)
    moreover have "heap (rebuiltAll docs es ?s1) (next_ref st) = heap ?s1 (next_ref st)"
      by (simp add: rebuiltAll_heap_old)
    moreover have "activeWindowId st = fst kv \<Longrightarrow>
        applicationMenu (rebuiltAll docs es ?s1) = applicationMenu ?s1"
      using notin rebuiltAll_inactive[of ?s1 es docs] by simp
    ultimately show ?thesis
      using 0 by (simp add: update_conv' rebuilt_heap_new)
  next
    case (Suc j)
    with Cons.prems(2) have j: "j < length es" by simp
    from Cons.prems(3) have
      "list_all (\<lambda>kv. case menu (snd kv) of None \<Rightarrow> False | Some r \<Rightarrow> r < next_ref ?s1) es"
      by (auto simp: list_all_iff split: option.splits)
    from Cons.IH[OF di j this]
    have ih: "map_of (windowMenus (rebuiltAll docs es ?s1)) (fst (es ! j)) =
           Some ((snd (es ! j))\<lparr>menu := Some (next_ref ?s1 + j)\<rparr>)"
      "heap (rebuiltAll docs es ?s1) (next_ref ?s1 + j) =
           carry (case menu (snd (es ! j)) of None \<Rightarrow> Map.empty | Some r \<Rightarrow> heap ?s1 r)
             (built (configureMenu ?s1 docs))"
      "activeWindowId ?s1 = fst (es ! j) \<longrightarrow>
            applicationMenu (rebuiltAll docs es ?s1) = Some (next_ref ?s1 + j)"
      by blast+
    from Cons.prems(3) j obtain r where r: "menu (snd (es ! j)) = Some r" "r < next_ref st"
      by (auto simp: list_all_iff split: option.splits dest!: nth_mem)
    then have "heap ?s1 r = heap st r" by (simp add: rebuilt_heap_old)
    with ih r show ?thesis using Suc by simp
  qed
qed

section \<open>The effect of adding a path\<close>

lemma updateAppMenu_ok:
  assumes "menus_ok st"
  shows "updateAppMenu (Some docs) st = (Inr (), rebuiltAll docs (windowMenus st) st) \<and>
         menus_ok (rebuiltAll docs (windowMenus st) st)"
proof -
  from assms have "distinct (map fst (windowMenus st))" by (simp add: menus_ok_def)
  from rebuildAll_ok[OF assms subset_refl this, of docs] show ?thesis
    by (simp add: updateAppMenu_def)
qed

lemma menus_ok_trace [simp]: "menus_ok (st\<lparr>trace := t\<rparr>) = menus_ok st"
  by (simp add: menus_ok_def allocated_def cong: option.case_cong)

lemma menus_ok_disk [simp]: "menus_ok (st\<lparr>disk := d\<rparr>) = menus_ok st"
  by (simp add: menus_ok_def allocated_def cong: option.case_cong)

lemma gRUD_trace:
  "\<exists>evs. getRecentlyUsedDocuments st = (recentList st, st\<lparr>trace := trace st @ evs\<rparr>) \<and>
         filter isWrite evs = []"
proof -
  from gRUD_state[of st] show ?thesis
  proof
    assume "snd (getRecentlyUsedDocuments st) = st"
    then have "getRecentlyUsedDocuments st = (recentList st, st\<lparr>trace := trace st @ []\<rparr>)"
      by (simp add: recentList_def prod_eq_iff)
    then show ?thesis by (intro exI[of _ "[]"]) simp
  next
    assume "\<exists>e. snd (getRecentlyUsedDocuments st) = emit (LogException e) st"
    then obtain e where "snd (getRecentlyUsedDocuments st) = emit (LogException e) st" ..
    then have "getRecentlyUsedDocuments st =
        (recentList st, st\<lparr>trace := trace st @ [LogException e]\<rparr>)"
      by (simp add: recentList_def prod_eq_iff emit_def)
    then show ?thesis by (intro exI[of _ "[LogException e]"]) simp
  qed
qed

lemma recentList_trace [simp]: "recentList (st\<lparr>trace := t\<rparr>) = recentList st"
  by (rule recentList_cong) simp_all

lemma writable_trace [simp]: "writable (st\<lparr>trace := t\<rparr>) = writable st"
  by (simp add: writable_def)




text \<open>
  An add up to the point where it persists: the list read, the new list, and the state
  after the rebuild of the menus, which differs from the state before in the menus and
  in events that are no writes.
\<close>

lemma add_run:
  assumes ok: "menus_ok st" and nx: "\<not> isOsx st"
  shows "\<exists>s3. menus_ok s3 \<and> platform s3 = platform st \<and> userDataPath s3 = userDataPath st \<and>
           RECENTS_PATH s3 = RECENTS_PATH st \<and> disk s3 = disk st \<and> accepts s3 = accepts st \<and>
           writes s3 = writes st \<and>
           addRecentlyUsedDocument p st =
             (if snd (promote (recentList st) (JStr p))
              then andThen (ensureDirSync (userDataPath s3) s3) (\<lambda>_ s.
                     writeFileSync (RECENTS_PATH s)
                       (JsonText (JArr (fst (promote (recentList st) (JStr p))))) s)
              else (Inr (), s3))"
proof -
  define st1 where "st1 = (if isOsxOrWindows st then emit (AddRecentDocument p) st else st)"
  have "\<exists>ev1. st1 = st\<lparr>trace := trace st @ ev1\<rparr> \<and> filter isWrite ev1 = []"
  proof (cases "isOsxOrWindows st")
    case True
    then have "st1 = st\<lparr>trace := trace st @ [AddRecentDocument p]\<rparr>"
      by (simp add: st1_def emit_def)
    then show ?thesis by (intro exI[of _ "[AddRecentDocument p]"]) simp
  next
    case False
    then have "st1 = st\<lparr>trace := trace st @ []\<rparr>" by (simp add: st1_def)
    then show ?thesis by (intro exI[of _ "[]"]) simp
  qed
  then obtain ev1 where st1: "st1 = st\<lparr>trace := trace st @ ev1\<rparr>" and ev1: "filter isWrite ev1 = []"
    by blast
  from gRUD_trace[of st1] obtain ev2 where
    g: "getRecentlyUsedDocuments st1 = (recentList st1, st1\<lparr>trace := trace st1 @ ev2\<rparr>)"
    and ev2: "filter isWrite ev2 = []" by blast
  define st2 where "st2 = st\<lparr>trace := trace st @ ev1 @ ev2\<rparr>"
  have g': "getRecentlyUsedDocuments st1 = (recentList st, st2)"
    using g by (simp add: st1 st2_def)
  define docs where "docs = fst (promote (recentList st) (JStr p))"
  define needSave where "needSave = snd (promote (recentList st) (JStr p))"
  have pr: "promote (recentList st) (JStr p) = (docs, needSave)"
    by (simp add: docs_def needSave_def)
  have ok2: "menus_ok st2" using ok by (simp add: st2_def)
  define st3 where "st3 = rebuiltAll docs (windowMenus st2) st2"
  from updateAppMenu_ok[OF ok2, of docs]
  have u: "updateAppMenu (Some docs) st2 = (Inr (), st3)" and ok3: "menus_ok st3"
    by (simp_all add: st3_def)
  have nx1: "\<not> isOsx st1" using nx by (simp add: st1 isOsx_def)
  have f3: "platform st3 = platform st" "userDataPath st3 = userDataPath st"
    "RECENTS_PATH st3 = RECENTS_PATH st" "disk st3 = disk st" "accepts st3 = accepts st"
    "trace st3 = trace st @ ev1 @ ev2"
    by (simp_all add: st3_def st2_def)
  have w3: "writes st3 = writes st" using ev1 ev2 by (simp add: writes_def f3)
  have res: "addRecentlyUsedDocument p st =
      (if needSave
       then andThen (ensureDirSync (userDataPath st3) st3) (\<lambda>_ s.
              writeFileSync (RECENTS_PATH s) (JsonText (JArr docs)) s)
       else (Inr (), st3))"
    using nx1 g' pr u
    by (simp add: addRecentlyUsedDocument_def st1_def[symmetric] andThen_def JSON_stringify_def)
  from ok3 f3 w3 res show ?thesis
    unfolding docs_def needSave_def by blast
qed


section \<open>Reading the persisted list, and the missing snapshot\<close>

lemma not_darwin_linux [simp]: "\<not> sublist ''darwin'' ''linux''"
  by code_simp

lemma not_win32_linux [simp]: "\<not> sublist ''win32'' ''linux''"
  by code_simp

lemma fresh_fields [simp]:
  "platform (fresh pf fs) = pf"
  "userDataPath (fresh pf fs) = ''/u''"
  "RECENTS_PATH (fresh pf fs) = ''/u/recent.json''"
  "configureMenu (fresh pf fs) = template0"
  "activeWindowId (fresh pf fs) = - 1"
  "windowMenus (fresh pf fs) = []"
  "disk (fresh pf fs) = fs"
  "accepts (fresh pf fs) = (\<lambda>p. True)"
  "applicationMenu (fresh pf fs) = None"
  "next_ref (fresh pf fs) = 0"
  "trace (fresh pf fs) = []"
  by (simp_all add: fresh_def)

text \<open>
  C4. Whatever array the persisted file holds, the list read from it is returned with
  no exception and nothing logged (the state is as before), every entry returned is an
  entry of the file that is a file or a directory now, and a path that no longer exists
  is not in the list.
\<close>

theorem list_drops_stale:
  assumes "disk st (RECENTS_PATH st) = Some (File (JsonText (JArr xs)))"
  shows "\<exists>L. getRecentlyUsedDocuments st = (L, st) \<and>
           (\<forall>f\<in>set L. f \<in> set xs \<and> (isFile (disk st) f \<or> isDirectory (disk st) f)) \<and>
           (\<forall>p. disk st p = None \<longrightarrow> JStr p \<notin> set L)"
proof -
  let ?L = "take 12 (filter (\<lambda>f. truthy f \<and> (isFile (disk st) f \<or> isDirectory (disk st) f)) xs)"
  have g: "getRecentlyUsedDocuments st = (?L, st)"
    using assms by (rule gRUD_array)
  have kept: "\<forall>f\<in>set ?L. f \<in> set xs \<and> (isFile (disk st) f \<or> isDirectory (disk st) f)"
    by (auto dest: in_set_takeD)
  have "\<forall>p. disk st p = None \<longrightarrow> JStr p \<notin> set ?L"
  proof (intro allI impI notI)
    fix p assume none: "disk st p = None" and "JStr p \<in> set ?L"
    with kept have "isFile (disk st) (JStr p) \<or> isDirectory (disk st) (JStr p)" by blast
    with none show False by (simp add: isFile_def isDirectory_def)
  qed
  with g kept show ?thesis by blast
qed

theorem list_drops_stale_witness:
  "getRecentlyUsedDocuments (fresh ''linux'' disk1) =
     ([JStr ''/a.md'', JStr ''/docs''], fresh ''linux'' disk1) \<and>
   disk1 ''/gone.md'' = None"
  using list_drops_stale[of "fresh ''linux'' disk1"
      "[JStr ''/a.md'', JStr ''/gone.md'', JNull, JStr ''/docs'']"]
  by (simp add: disk1_def gRUD_array isFile_def isDirectory_def)

text \<open>
  C5. When the persisted file is not JSON, or is JSON but not an array, the list read
  is empty and the exception is logged; the method has no exceptional outcome.
\<close>

theorem list_malformed_empty:
  assumes "disk st (RECENTS_PATH st) = Some (File t)"
    and "t = NotJson \<or> (\<exists>v. t = JsonText v \<and> (\<forall>xs. v \<noteq> JArr xs))"
  shows "\<exists>e. getRecentlyUsedDocuments st = ([], emit (LogException e) st)"
  using assms by (auto simp: gRUD_notjson gRUD_nonarray)

theorem list_malformed_empty_witness:
  "getRecentlyUsedDocuments (fresh ''linux'' disk2) =
     ([], emit (LogException SyntaxError) (fresh ''linux'' disk2))"
  using list_malformed_empty[of "fresh ''linux'' disk2" NotJson]
  by (simp add: disk2_def gRUD_notjson)

text \<open>
  C7. For a window with no stored snapshot, \<open>getWindowMenuById\<close> throws the TypeError
  of destructuring \<open>undefined\<close>: the state is as before, so nothing is logged, and the
  error is not the explicit one. \<open>setActiveWindow\<close> does the same for a window that is
  not the active one.
\<close>

theorem missing_snapshot_TypeError:
  assumes "map_of (windowMenus st) w = None"
  shows "getWindowMenuById w st = (Inl TypeError, st) \<and>
         (if activeWindowId st = w then setActiveWindow w st = (Inr (), st)
          else setActiveWindow w st = (Inl TypeError, st))"
  using assms by (simp add: getWindowMenuById_def setActiveWindow_def andThen_def)

theorem missing_snapshot_TypeError_witness:
  "getWindowMenuById 1 (fresh ''linux'' Map.empty) = (Inl TypeError, fresh ''linux'' Map.empty) \<and>
   setActiveWindow 1 (fresh ''linux'' Map.empty) = (Inl TypeError, fresh ''linux'' Map.empty) \<and>
   trace (snd (setActiveWindow 1 (fresh ''linux'' Map.empty))) = []"
  using missing_snapshot_TypeError[of "fresh ''linux'' Map.empty" 1]
  by simp

section \<open>The list after one add and after many\<close>





lemma andThen_Inr [simp]: "andThen (Inr v, st) k = k v st"
  by (simp add: andThen_def)

lemma andThen_Inl [simp]: "andThen (Inl e, st) k = (Inl e, st)"
  by (simp add: andThen_def)




section \<open>The cases of an add\<close>








section \<open>Adding a path: the cases and the writes\<close>




lemma isOsx_windows: "isOsx st \<Longrightarrow> isOsxOrWindows st"
  by (simp add: isOsx_def isOsxOrWindows_def)


lemma rebuilt_trace: "rebuilt docs kv (st\<lparr>trace := t\<rparr>) = (rebuilt docs kv st)\<lparr>trace := t\<rparr>"
  by (simp add: rebuilt_def cong: option.case_cong)

lemma rebuiltAll_trace:
  "rebuiltAll docs es (st\<lparr>trace := t\<rparr>) = (rebuiltAll docs es st)\<lparr>trace := t\<rparr>"
  by (induction es arbitrary: st) (simp_all add: rebuilt_trace)



lemma writes_disk [simp]: "writes (st\<lparr>disk := d\<rparr>) = writes st"
  by (simp add: writes_def)





section \<open>The bound of twelve\<close>




section \<open>Paths that do not exist, and clearing\<close>








lemma darwin_is_osx [simp]: "isOsx (fresh ''darwin'' fs)"
  by (simp add: isOsx_def)



section \<open>Rebuilding all menus\<close>

lemma nth_of_map_of:
  assumes keys: "map fst al' = map fst al" and di: "distinct (map fst al)"
    and i: "i < length al" and m: "map_of al' (fst (al ! i)) = Some v"
  shows "al' ! i = (fst (al ! i), v)"
proof -
  from keys have len: "length al' = length al" by (metis length_map)
  with i have i': "i < length al'" by simp
  have "fst (al' ! i) = fst (al ! i)"
    using keys i i' by (metis nth_map)
  moreover have "al' ! i \<in> set al'" using i' by simp
  moreover have "distinct (map fst al')" using di keys by simp
  ultimately have "map_of al' (fst (al ! i)) = Some (snd (al' ! i))"
    by (metis map_of_is_SomeI prod.collapse)
  with m have "snd (al' ! i) = v" by simp
  with \<open>fst (al' ! i) = fst (al ! i)\<close> show ?thesis by (metis prod.collapse)
qed

lemma carry_toggle:
  assumes "ident \<in> set toggles" "hasItems toggles old" "hasItems toggles new"
  shows "\<exists>oldItem newItem. old ident = Some oldItem \<and> new ident = Some newItem \<and>
           carry old new ident = Some (newItem\<lparr>checked := checked oldItem\<rparr>)"
proof -
  from assms have "old ident \<noteq> None" "new ident \<noteq> None"
    by (simp_all add: hasItems_def list_all_iff)
  then obtain oldItem newItem where "old ident = Some oldItem" "new ident = Some newItem"
    by blast
  with assms(1) show ?thesis by (simp add: carry_def)
qed

lemma rebuild_result:
  fixes docs :: "json list"
  assumes ok: "menus_ok st"
  defines "S \<equiv> rebuiltAll docs (windowMenus st) st"
  shows "map fst (windowMenus S) = map fst (windowMenus st) \<and>
     (\<forall>i<length (windowMenus st). \<exists>k v r.
         windowMenus st ! i = (k, v) \<and> menu v = Some r \<and>
         windowMenus S ! i = (k, v\<lparr>menu := Some (next_ref st + i)\<rparr>) \<and>
         heap S (next_ref st + i) = carry (heap st r) (built (configureMenu st docs)) \<and>
         (\<forall>ident\<in>set toggles. \<exists>old new.
             heap st r ident = Some old \<and> heap S (next_ref st + i) ident = Some new \<and>
             checked new = checked old) \<and>
         (activeWindowId st = k \<longrightarrow> applicationMenu S = Some (next_ref st + i))) \<and>
     (activeWindowId st \<notin> fst ` set (windowMenus st) \<longrightarrow>
        applicationMenu S = applicationMenu st) \<and>
     (\<forall>a<next_ref st. heap S a = heap st a)"
proof (intro conjI allI impI)
  let ?es = "windowMenus st"
  from ok have di: "distinct (map fst ?es)" by (simp add: menus_ok_def)
  show keys: "map fst (windowMenus S) = map fst ?es"
    unfolding S_def by (rule rebuiltAll_keys) simp
  have refs: "list_all (\<lambda>kv. case menu (snd kv) of None \<Rightarrow> False | Some r \<Rightarrow> r < next_ref st) ?es"
    using ok by (auto simp: menus_ok_def allocated_def list_all_iff split: option.splits)
  from ok have tm: "hasItems toggles (built (configureMenu st docs))"
    by (simp add: menus_ok_def)
  {
    fix i assume i: "i < length ?es"
    obtain k v where kv: "?es ! i = (k, v)" by (cases "?es ! i")
    with i have mem: "(k, v) \<in> set ?es" by (metis nth_mem)
    from menus_ok_entry[OF ok mem] obtain r where
      r: "menu v = Some r" "r < next_ref st" "hasItems toggles (heap st r)" by blast
    from rebuiltAll_nth[OF di i refs, of docs] kv r
    have m: "map_of (windowMenus S) k = Some (v\<lparr>menu := Some (next_ref st + i)\<rparr>)"
      and h: "heap S (next_ref st + i) = carry (heap st r) (built (configureMenu st docs))"
      and a: "activeWindowId st = k \<longrightarrow> applicationMenu S = Some (next_ref st + i)"
      by (simp_all add: S_def)
    from nth_of_map_of[OF keys di i] m kv
    have n: "windowMenus S ! i = (k, v\<lparr>menu := Some (next_ref st + i)\<rparr>)" by simp
    have t: "\<forall>ident\<in>set toggles. \<exists>old new.
             heap st r ident = Some old \<and> heap S (next_ref st + i) ident = Some new \<and>
             checked new = checked old"
    proof
      fix ident assume "ident \<in> set toggles"
      from carry_toggle[OF this r(3) tm] h
      show "\<exists>old new. heap st r ident = Some old \<and> heap S (next_ref st + i) ident = Some new \<and>
             checked new = checked old" by auto
    qed
    from kv r(1) n h t a
    show "\<exists>k v r.
         windowMenus st ! i = (k, v) \<and> menu v = Some r \<and>
         windowMenus S ! i = (k, v\<lparr>menu := Some (next_ref st + i)\<rparr>) \<and>
         heap S (next_ref st + i) = carry (heap st r) (built (configureMenu st docs)) \<and>
         (\<forall>ident\<in>set toggles. \<exists>old new.
             heap st r ident = Some old \<and> heap S (next_ref st + i) ident = Some new \<and>
             checked new = checked old) \<and>
         (activeWindowId st = k \<longrightarrow> applicationMenu S = Some (next_ref st + i))"
      by blast
  }
  {
    assume "activeWindowId st \<notin> fst ` set ?es"
    then show "applicationMenu S = applicationMenu st"
      unfolding S_def by (rule rebuiltAll_inactive)
  }
  {
    fix a assume "a < next_ref st"
    then show "heap S a = heap st a" unfolding S_def by (rule rebuiltAll_heap_old)
  }
qed


lemma updateAppMenu_any:
  assumes ok: "menus_ok st"
  shows "\<exists>t. updateAppMenu arg st =
           (Inr (), (rebuiltAll (case arg of None \<Rightarrow> recentList st | Some ds \<Rightarrow> ds)
                       (windowMenus st) st)\<lparr>trace := t\<rparr>)"
proof -
  let ?docs = "case arg of None \<Rightarrow> recentList st | Some ds \<Rightarrow> ds"
  have "\<exists>t. (case arg of None \<Rightarrow> getRecentlyUsedDocuments st | Some ds \<Rightarrow> (ds, st)) =
          (?docs, st\<lparr>trace := t\<rparr>)"
  proof (cases arg)
    case None
    with gRUD_trace[of st] show ?thesis by auto
  next
    case (Some ds)
    have "(ds, st) = (ds, st\<lparr>trace := trace st\<rparr>)" by simp
    with Some show ?thesis by (metis option.simps(5))
  qed
  then obtain t where pre: "(case arg of None \<Rightarrow> getRecentlyUsedDocuments st | Some ds \<Rightarrow> (ds, st)) =
          (?docs, st\<lparr>trace := t\<rparr>)" ..
  have ok1: "menus_ok (st\<lparr>trace := t\<rparr>)" using ok by simp
  from ok have "distinct (map fst (windowMenus (st\<lparr>trace := t\<rparr>)))" by (simp add: menus_ok_def)
  from rebuildAll_ok[OF ok1 subset_refl this, of ?docs]
  have "rebuildAll ?docs (windowMenus st) (st\<lparr>trace := t\<rparr>) =
      (Inr (), (rebuiltAll ?docs (windowMenus st) st)\<lparr>trace := t\<rparr>)"
    by (simp add: rebuiltAll_trace)
  with pre have "updateAppMenu arg st =
      (Inr (), (rebuiltAll ?docs (windowMenus st) st)\<lparr>trace := t\<rparr>)"
    by (simp add: updateAppMenu_def)
  then show ?thesis ..
qed

text \<open>
  C10. In a state where every stored menu and every menu the templates build has the
  five toggles, \<open>updateAppMenu\<close> returns normally, keeps the windows and their order, and
  for the window at position \<open>i\<close>, with old menu \<open>r\<close>: the snapshot now refers to a menu
  at a new address (\<open>next_ref st + i\<close>, so no two windows share one); this menu is the
  one built from the template with the checked state of each of the five toggles taken
  from \<open>r\<close>, the window's own old menu; and it is the application menu when the window is
  the active one. Menus built before are not changed.
\<close>

theorem rebuild_keeps_own_toggles:
  assumes "menus_ok st"
  shows "\<exists>st'. updateAppMenu arg st = (Inr (), st') \<and>
     map fst (windowMenus st') = map fst (windowMenus st) \<and>
     (\<forall>i<length (windowMenus st). \<exists>k v r.
         windowMenus st ! i = (k, v) \<and> menu v = Some r \<and>
         windowMenus st' ! i = (k, v\<lparr>menu := Some (next_ref st + i)\<rparr>) \<and>
         heap st' (next_ref st + i) =
           carry (heap st r)
             (built (configureMenu st (case arg of None \<Rightarrow> recentList st | Some ds \<Rightarrow> ds))) \<and>
         (\<forall>ident\<in>set toggles. \<exists>old new.
             heap st r ident = Some old \<and> heap st' (next_ref st + i) ident = Some new \<and>
             checked new = checked old) \<and>
         (activeWindowId st = k \<longrightarrow> applicationMenu st' = Some (next_ref st + i))) \<and>
     (activeWindowId st \<notin> fst ` set (windowMenus st) \<longrightarrow>
        applicationMenu st' = applicationMenu st) \<and>
     (\<forall>a<next_ref st. heap st' a = heap st a)"
proof -
  let ?docs = "case arg of None \<Rightarrow> recentList st | Some ds \<Rightarrow> ds"
  let ?S = "rebuiltAll ?docs (windowMenus st) st"
  from updateAppMenu_any[OF assms, of arg] obtain t where
    u: "updateAppMenu arg st = (Inr (), ?S\<lparr>trace := t\<rparr>)" ..
  have f: "windowMenus (?S\<lparr>trace := t\<rparr>) = windowMenus ?S" "heap (?S\<lparr>trace := t\<rparr>) = heap ?S"
    "applicationMenu (?S\<lparr>trace := t\<rparr>) = applicationMenu ?S"
    by simp_all
  from rebuild_result[OF assms, of ?docs] u show ?thesis
    unfolding f[symmetric] by blast
qed

lemma menus_ok_two_windows: "menus_ok two_windows"
  by (simp add: menus_ok_def allocated_def two_windows_def template0_def
      hasItems_def toggles_def menu0_def)

theorem rebuild_keeps_own_toggles_witness:
  "menus_ok two_windows \<and>
   fst (updateAppMenu (Some []) two_windows) = Inr () \<and>
   map_option checked (heap (snd (updateAppMenu (Some []) two_windows)) 2 ''sideBarMenuItem'') =
     Some True \<and>
   map_option checked (heap (snd (updateAppMenu (Some []) two_windows)) 2 ''tabBarMenuItem'') =
     Some False \<and>
   map_option checked (heap (snd (updateAppMenu (Some []) two_windows)) 3 ''sideBarMenuItem'') =
     Some False \<and>
   map_option checked (heap (snd (updateAppMenu (Some []) two_windows)) 3 ''tabBarMenuItem'') =
     Some True \<and>
   applicationMenu (snd (updateAppMenu (Some []) two_windows)) = Some 3"
proof -
  let ?st' = "snd (updateAppMenu (Some []) two_windows)"
  have w: "windowMenus two_windows =
      [(1, \<lparr>shortcutMap = Some [], menu = Some 0\<rparr>), (2, \<lparr>shortcutMap = Some [], menu = Some 1\<rparr>)]"
    "next_ref two_windows = 2" "activeWindowId two_windows = 2"
    "configureMenu two_windows = template0"
    "heap two_windows 0 = menu0(''sideBarMenuItem'' \<mapsto> \<lparr>checked = True, enabled = True\<rparr>)"
    "heap two_windows 1 = menu0(''tabBarMenuItem'' \<mapsto> \<lparr>checked = True, enabled = True\<rparr>)"
    "heap two_windows (Suc 0) = menu0(''tabBarMenuItem'' \<mapsto> \<lparr>checked = True, enabled = True\<rparr>)"
    by (simp_all add: two_windows_def)
  from rebuild_keeps_own_toggles[OF menus_ok_two_windows, of "Some []"]
  have r: "fst (updateAppMenu (Some []) two_windows) = Inr ()"
    and all: "\<forall>i<length (windowMenus two_windows). \<exists>k v r.
         windowMenus two_windows ! i = (k, v) \<and> menu v = Some r \<and>
         heap ?st' (next_ref two_windows + i) =
           carry (heap two_windows r) (built (configureMenu two_windows [])) \<and>
         (activeWindowId two_windows = k \<longrightarrow> applicationMenu ?st' = Some (next_ref two_windows + i))"
    by auto
  from all[rule_format, of 0]
  have h2: "heap ?st' 2 = carry (heap two_windows 0) menu0"
    by (auto simp: w template0_def)
  from all[rule_format, of 1]
  have h3: "heap ?st' 3 = carry (heap two_windows 1) menu0" and a: "applicationMenu ?st' = Some 3"
    by (auto simp: w template0_def)
  have c: "map_option checked (heap ?st' 2 ''sideBarMenuItem'') = Some True"
    "map_option checked (heap ?st' 2 ''tabBarMenuItem'') = Some False"
    "map_option checked (heap ?st' 3 ''sideBarMenuItem'') = Some False"
    "map_option checked (heap ?st' 3 ''tabBarMenuItem'') = Some True"
    by (simp_all add: h2 h3 w carry_def toggles_def menu0_def item0_def)
  from r a c show ?thesis by (simp add: menus_ok_two_windows)
qed

section \<open>A new window menu\<close>

lemma updateMenuItemSafe_ok:
  assumes "heap st n ident = Some item"
  shows "updateMenuItemSafe cur (Some n) ident d st =
           (Inr (), st\<lparr>heap := (heap st)(n := (heap st n)(ident \<mapsto>
              item\<lparr>checked := (case cur of None \<Rightarrow> d
                | Some a \<Rightarrow> (case heap st a ident of None \<Rightarrow> d | Some oldItem \<Rightarrow> checked oldItem))\<rparr>))\<rparr>)"
  using assms
  by (simp add: updateMenuItemSafe_def getMenuItemById_def setChecked_def Let_def)

lemma addEditorMenu_ok:
  fixes st :: app and w :: int
  defines "T \<equiv> configureMenu st (recentList st)"
  defines "n \<equiv> next_ref st"
  defines "vs \<equiv> visibleChecked st ''sourceCodeModeMenuItem''"
  defines "vt \<equiv> visibleChecked st ''typewriterModeMenuItem''"
  assumes al: "allocated st"
    and s0: "built T ''sourceCodeModeMenuItem'' = Some s0"
    and t0: "built T ''typewriterModeMenuItem'' = Some t0"
    and f0: "built T ''focusModeMenuItem'' = Some f0"
  shows "\<exists>st'. addEditorMenu w st = (Inr (), st') \<and>
           map_of (windowMenus st') w = Some \<lparr>shortcutMap = Some (parsed T), menu = Some n\<rparr> \<and>
           heap st' n ''sourceCodeModeMenuItem'' = Some (s0\<lparr>checked := vs\<rparr>) \<and>
           heap st' n ''typewriterModeMenuItem'' =
             Some (t0\<lparr>checked := vt, enabled := (if vs then False else enabled t0)\<rparr>) \<and>
           heap st' n ''focusModeMenuItem'' =
             Some (f0\<lparr>enabled := (if vs then False else enabled f0)\<rparr>) \<and>
           (\<forall>a<n. heap st' a = heap st a) \<and>
           applicationMenu st' = applicationMenu st \<and> activeWindowId st' = activeWindowId st \<and>
           (\<forall>ident. heap st' n ident = None \<longleftrightarrow> built T ident = None) \<and>
           windowMenus st' =
             AList.update w \<lparr>shortcutMap = Some (parsed T), menu = Some n\<rparr> (windowMenus st) \<and>
           next_ref st' = Suc n \<and> configureMenu st' = configureMenu st"
proof -
  from gRUD_trace[of st] obtain evs where
    g: "getRecentlyUsedDocuments st = (recentList st, st\<lparr>trace := trace st @ evs\<rparr>)" by blast
  have cur: "case applicationMenu st of None \<Rightarrow> True | Some a \<Rightarrow> a \<noteq> next_ref st"
    using al by (auto simp: allocated_def split: option.splits)
  define new where "new = \<lparr>shortcutMap = Some (parsed T), menu = Some n\<rparr>"
  define s2 where "s2 = st\<lparr>trace := trace st @ evs, heap := (heap st)(n := built T),
      next_ref := Suc n, windowMenus := AList.update w new (windowMenus st)\<rparr>"
  have b: "buildDefaultMenu True None st =
      (new, st\<lparr>trace := trace st @ evs, heap := (heap st)(n := built T), next_ref := Suc n\<rparr>)"
    by (simp add: buildDefaultMenu_def g buildFromTemplate_def T_def n_def new_def Let_def)
  define s3 where "s3 = s2\<lparr>heap := (heap s2)(n := (heap s2 n)(''sourceCodeModeMenuItem'' \<mapsto>
      s0\<lparr>checked := vs\<rparr>))\<rparr>"
  have chk2: "(case applicationMenu st of None \<Rightarrow> False
          | Some a \<Rightarrow> (case heap s2 a ident of None \<Rightarrow> False | Some x \<Rightarrow> checked x)) =
        visibleChecked st ident" for ident
    using cur by (cases "applicationMenu st") (simp_all add: visibleChecked_def s2_def n_def)
  have u1: "updateMenuItemSafe (applicationMenu st) (Some n) ''sourceCodeModeMenuItem'' False s2 =
      (Inr (), s3)"
  proof -
    have "heap s2 n ''sourceCodeModeMenuItem'' = Some s0" by (simp add: s2_def s0)
    from updateMenuItemSafe_ok[OF this, of "applicationMenu st" False]
    show ?thesis
      by (simp only: chk2 s3_def vs_def)
  qed
  define s4 where "s4 = s3\<lparr>heap := (heap s3)(n := (heap s3 n)(''typewriterModeMenuItem'' \<mapsto>
      t0\<lparr>checked := vt\<rparr>))\<rparr>"
  have chk3: "(case applicationMenu st of None \<Rightarrow> False
          | Some a \<Rightarrow> (case heap s3 a ident of None \<Rightarrow> False | Some x \<Rightarrow> checked x)) =
        visibleChecked st ident" for ident
    using cur by (cases "applicationMenu st") (simp_all add: visibleChecked_def s3_def s2_def n_def)
  have u2: "updateMenuItemSafe (applicationMenu st) (Some n) ''typewriterModeMenuItem'' False s3 =
      (Inr (), s4)"
  proof -
    have "heap s3 n ''typewriterModeMenuItem'' = Some t0" by (simp add: s3_def s2_def t0)
    from updateMenuItemSafe_ok[OF this, of "applicationMenu st" False]
    show ?thesis
      by (simp only: chk3 s4_def vt_def)
  qed
  have h4: "heap s4 n ''sourceCodeModeMenuItem'' = Some (s0\<lparr>checked := vs\<rparr>)"
    "heap s4 n ''typewriterModeMenuItem'' = Some (t0\<lparr>checked := vt\<rparr>)"
    "heap s4 n ''focusModeMenuItem'' = Some f0"
    by (simp_all add: s4_def s3_def s2_def f0)
  define s6 where "s6 = (if vs
      then setEnabled n ''focusModeMenuItem'' False (setEnabled n ''typewriterModeMenuItem'' False s4)
      else s4)"
  define st' where "st' = emit (RegisterKeyHandlers w (Some (parsed T))) s6"
  have am: "applicationMenu s2 = applicationMenu st" by (simp add: s2_def)
  have nw: "menu new = Some n" "shortcutMap new = Some (parsed T)" by (simp_all add: new_def)
  have h5: "heap (setEnabled n ''typewriterModeMenuItem'' False s4) n ''focusModeMenuItem'' = Some f0"
    using h4 by (simp add: setEnabled_def)
  have res: "addEditorMenu w st = (Inr (), st')"
    using u1 u2 h4 h5
    by (simp add: addEditorMenu_def b s2_def[symmetric] am Let_def nw
        getMenuItemById_def st'_def s6_def)
  have h6: "heap s6 n ''sourceCodeModeMenuItem'' = Some (s0\<lparr>checked := vs\<rparr>)"
    "heap s6 n ''typewriterModeMenuItem'' =
       Some (t0\<lparr>checked := vt, enabled := (if vs then False else enabled t0)\<rparr>)"
    "heap s6 n ''focusModeMenuItem'' = Some (f0\<lparr>enabled := (if vs then False else enabled f0)\<rparr>)"
    using h4 by (simp_all add: s6_def setEnabled_def)
  have old: "\<forall>a<n. heap s6 a = heap st a"
    using h4 by (auto simp: s6_def setEnabled_def s4_def s3_def s2_def)
  have rest: "map_of (windowMenus s6) w = Some new" "applicationMenu s6 = applicationMenu st"
    "activeWindowId s6 = activeWindowId st"
    using h4 by (simp_all add: s6_def setEnabled_def s4_def s3_def s2_def update_conv')
  have dom4: "\<forall>ident. heap s4 n ident = None \<longleftrightarrow> built T ident = None"
    using s0 t0 by (simp add: s4_def s3_def s2_def)
  have dom6: "\<forall>ident. heap s6 n ident = None \<longleftrightarrow> built T ident = None"
    using dom4 h4 t0 f0 by (simp add: s6_def setEnabled_def)
  have more: "windowMenus s6 = AList.update w new (windowMenus st)" "next_ref s6 = Suc n"
    "configureMenu s6 = configureMenu st"
    using h4 by (simp_all add: s6_def setEnabled_def s4_def s3_def s2_def)
  from res h6 old rest dom6 more show ?thesis
    by (simp add: st'_def emit_def new_def)
qed


lemma three_items:
  assumes "hasItems [''sourceCodeModeMenuItem'', ''typewriterModeMenuItem'', ''focusModeMenuItem''] m"
  shows "\<exists>s0 t0 f0. m ''sourceCodeModeMenuItem'' = Some s0 \<and>
           m ''typewriterModeMenuItem'' = Some t0 \<and> m ''focusModeMenuItem'' = Some f0"
  using assms by (auto simp: hasItems_def)

text \<open>
  C8. When the template has the items, \<open>addEditorMenu\<close> returns normally and stores for
  the window a menu at a new address in which source code mode and typewriter mode are
  checked as they are in the visible menu, and not checked when there is no visible
  menu or the visible menu has no such item.
\<close>

theorem new_window_toggles:
  assumes "allocated st"
    and "hasItems [''sourceCodeModeMenuItem'', ''typewriterModeMenuItem'', ''focusModeMenuItem'']
           (built (configureMenu st (recentList st)))"
  shows "\<exists>st' src tw. addEditorMenu w st = (Inr (), st') \<and>
     map_of (windowMenus st') w =
       Some \<lparr>shortcutMap = Some (parsed (configureMenu st (recentList st))),
             menu = Some (next_ref st)\<rparr> \<and>
     heap st' (next_ref st) ''sourceCodeModeMenuItem'' = Some src \<and>
     checked src = visibleChecked st ''sourceCodeModeMenuItem'' \<and>
     heap st' (next_ref st) ''typewriterModeMenuItem'' = Some tw \<and>
     checked tw = visibleChecked st ''typewriterModeMenuItem'' \<and>
     (applicationMenu st = None \<longrightarrow> \<not> checked src \<and> \<not> checked tw) \<and>
     (\<forall>a. applicationMenu st = Some a \<longrightarrow>
        checked src = (case heap st a ''sourceCodeModeMenuItem'' of
                         None \<Rightarrow> False | Some item \<Rightarrow> checked item) \<and>
        checked tw = (case heap st a ''typewriterModeMenuItem'' of
                        None \<Rightarrow> False | Some item \<Rightarrow> checked item))"
proof -
  from three_items[OF assms(2)] obtain s0 t0 f0 where
    i: "built (configureMenu st (recentList st)) ''sourceCodeModeMenuItem'' = Some s0"
      "built (configureMenu st (recentList st)) ''typewriterModeMenuItem'' = Some t0"
      "built (configureMenu st (recentList st)) ''focusModeMenuItem'' = Some f0"
    by blast
  from addEditorMenu_ok[OF assms(1) i, of w] obtain st' where
    r: "addEditorMenu w st = (Inr (), st')"
    and m: "map_of (windowMenus st') w =
       Some \<lparr>shortcutMap = Some (parsed (configureMenu st (recentList st))),
             menu = Some (next_ref st)\<rparr>"
    and s: "heap st' (next_ref st) ''sourceCodeModeMenuItem'' =
       Some (s0\<lparr>checked := visibleChecked st ''sourceCodeModeMenuItem''\<rparr>)"
    and t: "heap st' (next_ref st) ''typewriterModeMenuItem'' =
       Some (t0\<lparr>checked := visibleChecked st ''typewriterModeMenuItem'',
                enabled := (if visibleChecked st ''sourceCodeModeMenuItem'' then False else enabled t0)\<rparr>)"
    by blast
  have none: "applicationMenu st = None \<longrightarrow>
      \<not> visibleChecked st ''sourceCodeModeMenuItem'' \<and> \<not> visibleChecked st ''typewriterModeMenuItem''"
    by (simp add: visibleChecked_def)
  have some: "\<forall>a. applicationMenu st = Some a \<longrightarrow>
        visibleChecked st ''sourceCodeModeMenuItem'' =
          (case heap st a ''sourceCodeModeMenuItem'' of None \<Rightarrow> False | Some item \<Rightarrow> checked item) \<and>
        visibleChecked st ''typewriterModeMenuItem'' =
          (case heap st a ''typewriterModeMenuItem'' of None \<Rightarrow> False | Some item \<Rightarrow> checked item)"
    by (simp add: visibleChecked_def)
  from r m s t none some show ?thesis by simp
qed

lemma one_window_facts:
  "allocated (one_window m)"
  "recentList (one_window m) = []"
  "configureMenu (one_window m) = template0"
  "next_ref (one_window m) = 1"
  "visibleChecked (one_window m) ident = (case m ident of None \<Rightarrow> False | Some item \<Rightarrow> checked item)"
  by (simp_all add: one_window_def allocated_def recentList_def gRUD_nofile visibleChecked_def)

lemma menu0_three:
  "hasItems [''sourceCodeModeMenuItem'', ''typewriterModeMenuItem'', ''focusModeMenuItem''] menu0"
  by (simp add: hasItems_def menu0_def)

theorem new_window_toggles_witness:
  "allocated typing \<and>
   fst (addEditorMenu 2 typing) = Inr () \<and>
   visibleChecked typing ''typewriterModeMenuItem'' \<and>
   \<not> visibleChecked typing ''sourceCodeModeMenuItem'' \<and>
   map_option checked (heap (snd (addEditorMenu 2 typing)) 1 ''typewriterModeMenuItem'') = Some True \<and>
   map_option checked (heap (snd (addEditorMenu 2 typing)) 1 ''sourceCodeModeMenuItem'') = Some False"
proof -
  have v: "visibleChecked typing ''typewriterModeMenuItem''"
    "\<not> visibleChecked typing ''sourceCodeModeMenuItem''"
    by (simp_all add: typing_def one_window_facts menu0_def item0_def)
  have a: "allocated typing" by (simp add: typing_def one_window_facts)
  have h: "hasItems [''sourceCodeModeMenuItem'', ''typewriterModeMenuItem'', ''focusModeMenuItem'']
           (built (configureMenu typing (recentList typing)))"
    by (simp add: typing_def one_window_facts template0_def menu0_three)
  have n: "next_ref typing = 1" by (simp add: typing_def one_window_facts)
  from new_window_toggles[OF a h, of 2] v
  have "fst (addEditorMenu 2 typing) = Inr () \<and>
   map_option checked (heap (snd (addEditorMenu 2 typing)) 1 ''typewriterModeMenuItem'') = Some True \<and>
   map_option checked (heap (snd (addEditorMenu 2 typing)) 1 ''sourceCodeModeMenuItem'') = Some False"
    by (auto simp: n)
  with a v show ?thesis by simp
qed

text \<open>
  C9. In the menu \<open>addEditorMenu\<close> makes, typewriter mode and focus mode are disabled
  when source code mode is checked in the visible menu, and otherwise enabled as the
  template built them.
\<close>

theorem coupling_rule:
  assumes "allocated st"
    and "hasItems [''sourceCodeModeMenuItem'', ''typewriterModeMenuItem'', ''focusModeMenuItem'']
           (built (configureMenu st (recentList st)))"
  shows "\<exists>st' tw fm tw0 fm0. addEditorMenu w st = (Inr (), st') \<and>
     built (configureMenu st (recentList st)) ''typewriterModeMenuItem'' = Some tw0 \<and>
     built (configureMenu st (recentList st)) ''focusModeMenuItem'' = Some fm0 \<and>
     heap st' (next_ref st) ''typewriterModeMenuItem'' = Some tw \<and>
     heap st' (next_ref st) ''focusModeMenuItem'' = Some fm \<and>
     (if visibleChecked st ''sourceCodeModeMenuItem''
      then \<not> enabled tw \<and> \<not> enabled fm
      else enabled tw = enabled tw0 \<and> enabled fm = enabled fm0)"
proof -
  from three_items[OF assms(2)] obtain s0 t0 f0 where
    i: "built (configureMenu st (recentList st)) ''sourceCodeModeMenuItem'' = Some s0"
      "built (configureMenu st (recentList st)) ''typewriterModeMenuItem'' = Some t0"
      "built (configureMenu st (recentList st)) ''focusModeMenuItem'' = Some f0"
    by blast
  from addEditorMenu_ok[OF assms(1) i, of w] obtain st' where
    r: "addEditorMenu w st = (Inr (), st')"
    and t: "heap st' (next_ref st) ''typewriterModeMenuItem'' =
       Some (t0\<lparr>checked := visibleChecked st ''typewriterModeMenuItem'',
                enabled := (if visibleChecked st ''sourceCodeModeMenuItem'' then False else enabled t0)\<rparr>)"
    and f: "heap st' (next_ref st) ''focusModeMenuItem'' =
       Some (f0\<lparr>enabled := (if visibleChecked st ''sourceCodeModeMenuItem'' then False else enabled f0)\<rparr>)"
    by blast
  show ?thesis
  proof (cases "visibleChecked st ''sourceCodeModeMenuItem''")
    case True
    with r t f i show ?thesis by simp
  next
    case False
    with r t f i show ?thesis by simp
  qed
qed

theorem coupling_rule_witness:
  "allocated sourcing \<and> visibleChecked sourcing ''sourceCodeModeMenuItem'' \<and>
   fst (addEditorMenu 2 sourcing) = Inr () \<and>
   map_option enabled (heap (snd (addEditorMenu 2 sourcing)) 1 ''typewriterModeMenuItem'') = Some False \<and>
   map_option enabled (heap (snd (addEditorMenu 2 sourcing)) 1 ''focusModeMenuItem'') = Some False \<and>
   \<not> visibleChecked typing ''sourceCodeModeMenuItem'' \<and>
   map_option enabled (heap (snd (addEditorMenu 2 typing)) 1 ''typewriterModeMenuItem'') = Some True \<and>
   map_option enabled (heap (snd (addEditorMenu 2 typing)) 1 ''focusModeMenuItem'') = Some True"
proof -
  have vs: "visibleChecked sourcing ''sourceCodeModeMenuItem''"
    by (simp add: sourcing_def one_window_facts)
  have vt: "\<not> visibleChecked typing ''sourceCodeModeMenuItem''"
    by (simp add: typing_def one_window_facts menu0_def item0_def)
  have a: "allocated sourcing" "allocated typing"
    by (simp_all add: sourcing_def typing_def one_window_facts)
  have h: "hasItems [''sourceCodeModeMenuItem'', ''typewriterModeMenuItem'', ''focusModeMenuItem'']
           (built (configureMenu sourcing (recentList sourcing)))"
    "hasItems [''sourceCodeModeMenuItem'', ''typewriterModeMenuItem'', ''focusModeMenuItem'']
           (built (configureMenu typing (recentList typing)))"
    by (simp_all add: sourcing_def typing_def one_window_facts template0_def menu0_three)
  have n: "next_ref sourcing = 1" "next_ref typing = 1"
    by (simp_all add: sourcing_def typing_def one_window_facts)
  have b: "built (configureMenu sourcing (recentList sourcing)) ''typewriterModeMenuItem'' = Some item0"
    "built (configureMenu sourcing (recentList sourcing)) ''focusModeMenuItem'' = Some item0"
    "built (configureMenu typing (recentList typing)) ''typewriterModeMenuItem'' = Some item0"
    "built (configureMenu typing (recentList typing)) ''focusModeMenuItem'' = Some item0"
    by (simp_all add: sourcing_def typing_def one_window_facts template0_def menu0_def)
  from coupling_rule[OF a(1) h(1), of 2] vs
  have s: "fst (addEditorMenu 2 sourcing) = Inr () \<and>
   map_option enabled (heap (snd (addEditorMenu 2 sourcing)) 1 ''typewriterModeMenuItem'') = Some False \<and>
   map_option enabled (heap (snd (addEditorMenu 2 sourcing)) 1 ''focusModeMenuItem'') = Some False"
    by (auto simp: n)
  from coupling_rule[OF a(2) h(2), of 2] vt b
  have t: "map_option enabled (heap (snd (addEditorMenu 2 typing)) 1 ''typewriterModeMenuItem'') = Some True \<and>
   map_option enabled (heap (snd (addEditorMenu 2 typing)) 1 ''focusModeMenuItem'') = Some True"
    by (auto simp: n item0_def)
  from a vs vt s t show ?thesis by simp
qed

section \<open>The states the class reaches\<close>

text \<open>
  The hypothesis \<open>menus_ok\<close> of the statements above holds in the state the constructor
  makes and is kept by every method, whatever the arguments: it excludes no state the
  class reaches when the templates define the five toggles.
\<close>

lemma list_all_delete: "list_all P al \<Longrightarrow> list_all P (AList.delete k al)"
  by (induction al) auto

lemma menus_ok_intro:
  assumes "case applicationMenu st of None \<Rightarrow> True | Some a \<Rightarrow> a < next_ref st"
    and "list_all (\<lambda>kv. case menu (snd kv) of None \<Rightarrow> False
           | Some a \<Rightarrow> a < next_ref st \<and> hasItems toggles (heap st a)) (windowMenus st)"
    and "distinct (map fst (windowMenus st))"
    and "\<forall>docs. hasItems toggles (built (configureMenu st docs))"
  shows "menus_ok st"
  using assms
  by (auto simp: menus_ok_def allocated_def list_all_iff split: option.splits)

lemma menus_ok_elim:
  assumes "menus_ok st"
  shows "case applicationMenu st of None \<Rightarrow> True | Some a \<Rightarrow> a < next_ref st"
    and "list_all (\<lambda>kv. case menu (snd kv) of None \<Rightarrow> False
           | Some a \<Rightarrow> a < next_ref st \<and> hasItems toggles (heap st a)) (windowMenus st)"
    and "distinct (map fst (windowMenus st))"
    and "\<forall>docs. hasItems toggles (built (configureMenu st docs))"
  using assms
  by (auto simp: menus_ok_def allocated_def list_all_iff split: option.splits)

lemma removeWindowMenu_menus_ok:
  assumes "menus_ok st"
  shows "menus_ok (removeWindowMenu w st)"
proof -
  note e = menus_ok_elim[OF assms]
  have "menus_ok (st\<lparr>windowMenus := AList.delete w (windowMenus st)\<rparr>)"
  proof (rule menus_ok_intro)
    show "list_all (\<lambda>kv. case menu (snd kv) of None \<Rightarrow> False
           | Some a \<Rightarrow> a < next_ref (st\<lparr>windowMenus := AList.delete w (windowMenus st)\<rparr>) \<and>
               hasItems toggles (heap (st\<lparr>windowMenus := AList.delete w (windowMenus st)\<rparr>) a))
         (windowMenus (st\<lparr>windowMenus := AList.delete w (windowMenus st)\<rparr>))"
      using e(2) by (simp add: list_all_delete cong: option.case_cong)
  qed (use e in \<open>simp_all add: distinct_delete cong: option.case_cong\<close>)
  moreover have "menus_ok (s\<lparr>activeWindowId := i\<rparr>) = menus_ok s" for s i
    by (simp add: menus_ok_def allocated_def cong: option.case_cong)
  ultimately show ?thesis by (simp add: removeWindowMenu_def Let_def)
qed

lemma setActiveWindow_menus_ok:
  assumes "menus_ok st"
  shows "menus_ok (snd (setActiveWindow w st))"
proof (cases "map_of (windowMenus st) w")
  case None
  with assms show ?thesis
    by (simp add: setActiveWindow_def getWindowMenuById_def)
next
  case (Some v)
  then have mem: "(w, v) \<in> set (windowMenus st)" by (rule map_of_SomeD)
  from menus_ok_entry[OF assms mem] obtain r where r: "menu v = Some r" "r < next_ref st" by blast
  note e = menus_ok_elim[OF assms]
  have "menus_ok (st\<lparr>applicationMenu := Some r, activeWindowId := w\<rparr>)"
  proof (rule menus_ok_intro)
    show "list_all (\<lambda>kv. case menu (snd kv) of None \<Rightarrow> False
           | Some a \<Rightarrow> a < next_ref (st\<lparr>applicationMenu := Some r, activeWindowId := w\<rparr>) \<and>
               hasItems toggles (heap (st\<lparr>applicationMenu := Some r, activeWindowId := w\<rparr>) a))
         (windowMenus (st\<lparr>applicationMenu := Some r, activeWindowId := w\<rparr>))"
      using e(2) by (simp cong: option.case_cong)
  qed (use e r in \<open>simp_all cong: option.case_cong\<close>)
  with assms Some r show ?thesis
    by (simp add: setActiveWindow_def getWindowMenuById_def)
qed

lemma addEditorMenu_menus_ok:
  assumes "menus_ok st"
  shows "\<exists>st'. addEditorMenu w st = (Inr (), st') \<and> menus_ok st'"
proof -
  note e = menus_ok_elim[OF assms]
  let ?T = "configureMenu st (recentList st)"
  from assms have al: "allocated st" by (simp add: menus_ok_def)
  from e(4) have tg: "hasItems toggles (built ?T)" by simp
  then obtain s0 t0 f0 where
    i: "built ?T ''sourceCodeModeMenuItem'' = Some s0"
      "built ?T ''typewriterModeMenuItem'' = Some t0"
      "built ?T ''focusModeMenuItem'' = Some f0"
    by (auto simp: hasItems_toggles)
  from addEditorMenu_ok[OF al i, of w] obtain st' where
    r: "addEditorMenu w st = (Inr (), st')"
    and old: "\<forall>a<next_ref st. heap st' a = heap st a"
    and am: "applicationMenu st' = applicationMenu st"
    and dom: "\<forall>ident. heap st' (next_ref st) ident = None \<longleftrightarrow> built ?T ident = None"
    and wm: "windowMenus st' =
       AList.update w \<lparr>shortcutMap = Some (parsed ?T), menu = Some (next_ref st)\<rparr> (windowMenus st)"
    and nr: "next_ref st' = Suc (next_ref st)" and cm: "configureMenu st' = configureMenu st"
    by blast
  have new: "hasItems toggles (heap st' (next_ref st))"
    using tg dom by (simp add: hasItems_def list_all_iff)
  have "menus_ok st'"
  proof (rule menus_ok_intro)
    show "case applicationMenu st' of None \<Rightarrow> True | Some a \<Rightarrow> a < next_ref st'"
      using e(1) by (auto simp: am nr split: option.splits)
    have "list_all (\<lambda>kv. case menu (snd kv) of None \<Rightarrow> False
           | Some a \<Rightarrow> a < next_ref st' \<and> hasItems toggles (heap st' a)) (windowMenus st)"
      using e(2) old by (auto simp: list_all_iff nr split: option.splits)
    then show "list_all (\<lambda>kv. case menu (snd kv) of None \<Rightarrow> False
           | Some a \<Rightarrow> a < next_ref st' \<and> hasItems toggles (heap st' a)) (windowMenus st')"
      unfolding wm using new by (intro list_all_update) (simp_all add: nr)
    show "distinct (map fst (windowMenus st'))"
      using e(3) by (simp add: wm distinct_update)
    show "\<forall>docs. hasItems toggles (built (configureMenu st' docs))"
      using e(4) by (simp add: cm)
  qed
  with r show ?thesis by blast
qed

lemma persist_menus_ok:
  "menus_ok (snd (andThen (ensureDirSync d st) (\<lambda>_ s. writeFileSync (RECENTS_PATH s) t s))) =
   menus_ok st"
proof (cases "ensureDirSync d st")
  case (Pair r s)
  then have s: "s = st \<or> s = st\<lparr>disk := ensureDir (disk st) d\<rparr>"
    by (auto simp: ensureDirSync_def split: option.splits node.splits if_splits)
  then have oks: "menus_ok s = menus_ok st" by auto
  show ?thesis
  proof (cases r)
    case (Inl e)
    with Pair oks show ?thesis by simp
  next
    case (Inr u)
    have "menus_ok (snd (writeFileSync (RECENTS_PATH s) t s)) = menus_ok s"
      by (simp add: writeFileSync_def emit_def)
    with Pair Inr oks show ?thesis by simp
  qed
qed

lemma clear_menus_ok:
  assumes "menus_ok st"
  shows "menus_ok (snd (clearRecentlyUsedDocuments st))"
proof -
  define st1 where "st1 = (if isOsxOrWindows st then emit ClearRecentDocuments st else st)"
  have ok1: "menus_ok st1" using assms by (simp add: st1_def emit_def)
  show ?thesis
  proof (cases "isOsx st1")
    case True
    with ok1 show ?thesis
      by (simp add: clearRecentlyUsedDocuments_def st1_def[symmetric])
  next
    case False
    let ?s2 = "rebuiltAll [] (windowMenus st1) st1"
    from updateAppMenu_ok[OF ok1, of "[]"]
    have u: "updateAppMenu (Some []) st1 = (Inr (), ?s2)" and ok2: "menus_ok ?s2" by simp_all
    from False u have "clearRecentlyUsedDocuments st =
        andThen (ensureDirSync (userDataPath ?s2) ?s2)
          (\<lambda>_ s. writeFileSync (RECENTS_PATH s) (JSON_stringify (JArr [])) s)"
      by (simp add: clearRecentlyUsedDocuments_def st1_def[symmetric])
    with ok2 show ?thesis by (simp only: persist_menus_ok)
  qed
qed

lemma add_menus_ok:
  assumes "menus_ok st"
  shows "menus_ok (snd (addRecentlyUsedDocument p st))"
proof (cases "isOsx st")
  case True
  then have "isOsxOrWindows st" by (rule isOsx_windows)
  with True assms show ?thesis
    by (simp add: addRecentlyUsedDocument_def isOsx_def emit_def)
next
  case False
  from add_run[OF assms False, of p] obtain s3 where
    ok3: "menus_ok s3"
    and res: "addRecentlyUsedDocument p st =
             (if snd (promote (recentList st) (JStr p))
              then andThen (ensureDirSync (userDataPath s3) s3) (\<lambda>_ s.
                     writeFileSync (RECENTS_PATH s)
                       (JsonText (JArr (fst (promote (recentList st) (JStr p))))) s)
              else (Inr (), s3))"
    by blast
  show ?thesis
  proof (cases "snd (promote (recentList st) (JStr p))")
    case True
    with res have "addRecentlyUsedDocument p st =
        andThen (ensureDirSync (userDataPath s3) s3) (\<lambda>_ s.
          writeFileSync (RECENTS_PATH s)
            (JsonText (JArr (fst (promote (recentList st) (JStr p))))) s)"
      by (simp only: if_True)
    with ok3 show ?thesis by (simp only: persist_menus_ok)
  next
    case False
    with res ok3 show ?thesis by simp
  qed
qed

end
